theory Spec2Isabelle
  imports Complex_Main "HOL-Library.AList" "HOL-Library.Char_ord" "HOL-Library.List_Lexorder"
    "HOL-Library.Product_Lexorder"
begin

section \<open>Values and errors\<close>

text \<open>
  A Python float as the optimizer uses it: a finite number or one of the two infinities
  \<^verbatim>\<open>float('inf')\<close> and \<^verbatim>\<open>-float('inf')\<close>. Only comparisons are applied to these
  values, so the finite floats are read as the real numbers they denote. NaN, which the
  optimizer never produces itself, is not a member of the type.
\<close>

datatype pyfloat = NegInf | Fin real | PosInf

instantiation pyfloat :: linorder
begin

fun less_eq_pyfloat :: "pyfloat \<Rightarrow> pyfloat \<Rightarrow> bool" where
  "less_eq_pyfloat NegInf _ = True"
| "less_eq_pyfloat _ PosInf = True"
| "less_eq_pyfloat (Fin a) (Fin b) = (a \<le> b)"
| "less_eq_pyfloat _ _ = False"

definition less_pyfloat :: "pyfloat \<Rightarrow> pyfloat \<Rightarrow> bool" where
  "less_pyfloat a b = (a \<le> b \<and> \<not> b \<le> a)"

instance
proof
  fix x y z :: pyfloat
  show "(x < y) = (x \<le> y \<and> \<not> y \<le> x)"
    by (simp add: less_pyfloat_def)
  show "x \<le> x"
    by (cases x) simp_all
  show "x \<le> y \<Longrightarrow> y \<le> z \<Longrightarrow> x \<le> z"
    by (cases x; cases y; cases z) simp_all
  show "x \<le> y \<Longrightarrow> y \<le> x \<Longrightarrow> x = y"
    by (cases x; cases y) simp_all
  show "x \<le> y \<or> y \<le> x"
    by (cases x; cases y) auto
qed

end

text \<open>The Python exceptions the modelled code can meet; all are subclasses of \<^verbatim>\<open>Exception\<close>.\<close>

datatype py_exception =
    KeyError string
  | IndexError
  | ValueError
  | AttributeError
  | AssertionError
  | Timeout
  | ConnectionError
  | JSONDecodeError
  | OtherException string

section \<open>Post-hoc Pareto extraction (pareto\_analyzer.py)\<close>

text \<open>
  A DataFrame is a list of rows; a row maps column names to numbers. Reading a column
  that the frame does not have raises \<^verbatim>\<open>KeyError\<close>.
\<close>

type_synonym 'a row = "(string \<times> 'a) list"

definition kpi_names :: "string list" where
  "kpi_names = [''vesselsHandledQtt'', ''primeCost'', ''handlingTime'', ''profit'',
     ''timeAtTerminal'']"

text \<open>
  The innermost loop of \<^verbatim>\<open>identify_pareto_frontier\<close>: \<^verbatim>\<open>dominates\<close> starts as True and
  is cleared, leaving the loop, at the first objective on which row \<open>j\<close> is strictly
  worse than row \<open>i\<close>. The columns named \<^verbatim>\<open>vesselsHandledQtt\<close> and \<^verbatim>\<open>profit\<close> are
  maximized, every other column is minimized.
\<close>

fun dominates_loop :: "('a::linorder) row \<Rightarrow> 'a row \<Rightarrow> string list \<Rightarrow> py_exception + bool" where
  "dominates_loop rj ri [] = Inr True"
| "dominates_loop rj ri (obj # objs) =
     (case map_of rj obj of
        None \<Rightarrow> Inl (KeyError obj)
      | Some vj \<Rightarrow>
          (case map_of ri obj of
             None \<Rightarrow> Inl (KeyError obj)
           | Some vi \<Rightarrow>
               if obj \<in> set [''vesselsHandledQtt'', ''profit'']
               then (if vj < vi then Inr False else dominates_loop rj ri objs)
               else (if vj > vi then Inr False else dominates_loop rj ri objs)))"

text \<open>
  The loop over \<open>j\<close> for a fixed \<open>i\<close>: the result is the final value of
  \<^verbatim>\<open>pareto_mask[i]\<close>. Row \<open>i\<close> is never compared with itself; the first \<open>j\<close> whose
  \<^verbatim>\<open>dominates\<close> flag survives clears the mask and ends the loop.
\<close>

fun mask_loop :: "('a::linorder) row list \<Rightarrow> string list \<Rightarrow> nat \<Rightarrow> nat list \<Rightarrow> py_exception + bool" where
  "mask_loop df objs i [] = Inr True"
| "mask_loop df objs i (j # js) =
     (if i \<noteq> j then
        (case dominates_loop (df ! j) (df ! i) objs of
           Inl e \<Rightarrow> Inl e
         | Inr dominates \<Rightarrow> if dominates then Inr False else mask_loop df objs i js)
      else mask_loop df objs i js)"

text \<open>The loop over \<open>i\<close>: the mask of every row, in row order.\<close>

fun pareto_mask :: "('a::linorder) row list \<Rightarrow> string list \<Rightarrow> nat list \<Rightarrow> py_exception + bool list" where
  "pareto_mask df objs [] = Inr []"
| "pareto_mask df objs (i # rest) =
     (case mask_loop df objs i [0..<length df] of
        Inl e \<Rightarrow> Inl e
      | Inr m \<Rightarrow>
          (case pareto_mask df objs rest of
             Inl e \<Rightarrow> Inl e
           | Inr ms \<Rightarrow> Inr (m # ms)))"

text \<open>
  \<^verbatim>\<open>df[pareto_mask]\<close> keeps the rows whose mask is True together with their index labels,
  so the result lists (index, row) pairs. \<^verbatim>\<open>objectives=None\<close> selects the default pair.
\<close>

definition identify_pareto_frontier ::
    "('a::linorder) row list \<Rightarrow> string list option \<Rightarrow> py_exception + (nat \<times> 'a row) list" where
  "identify_pareto_frontier df objectives =
     (let objs = (case objectives of None \<Rightarrow> [''vesselsHandledQtt'', ''profit''] | Some os \<Rightarrow> os)
      in case pareto_mask df objs [0..<length df] of
           Inl e \<Rightarrow> Inl e
         | Inr pm \<Rightarrow> Inr (map fst (filter snd (zip (zip [0..<length df] df) pm))))"

text \<open>The tie scenario: one objective \<^verbatim>\<open>y\<close> (minimized), \<open>y = [5, 2, 2, 8]\<close>, \<open>x\<close> fixed.\<close>

definition tie_df :: "int row list" where
  "tie_df =
     [[(''x'', 1), (''y'', 5), (''aux'', 0)],
      [(''x'', 1), (''y'', 2), (''aux'', 1)],
      [(''x'', 1), (''y'', 2), (''aux'', 2)],
      [(''x'', 1), (''y'', 8), (''aux'', 3)]]"

section \<open>The oracle boundary (java\_interface.py)\<close>

text \<open>\<^verbatim>\<open>d.get(key, default)\<close> on a dictionary kept as an association list.\<close>

definition dict_get :: "('k \<times> 'v) list \<Rightarrow> 'k \<Rightarrow> 'v \<Rightarrow> 'v" where
  "dict_get d k dflt = (case map_of d k of None \<Rightarrow> dflt | Some v \<Rightarrow> v)"

text \<open>
  What \<^verbatim>\<open>response.json()\<close> can hand back: a JSON object with numeric KPI values, or
  some other JSON value (an array, a number, a string); JSON \<^verbatim>\<open>null\<close> decodes to
  \<^verbatim>\<open>None\<close>, which is the \<open>None\<close> of the option type below.
\<close>

datatype sim_result = ResultDict "(string \<times> pyfloat) list" | ResultOther

text \<open>
  The behaviour of \<^verbatim>\<open>requests.post\<close> for a given payload: it raises, or it returns a
  response with a status code whose \<^verbatim>\<open>.json()\<close> raises or yields a decoded value.
\<close>

datatype http_outcome =
    PostRaises py_exception
  | Response nat "py_exception + sim_result option"

definition iteration_data :: "(string \<times> int) list \<Rightarrow> (string \<times> int) list" where
  "iteration_data parameters =
     [(''varOfWork'', dict_get parameters ''varOfWork'' 3),
      (''capacityOfMainConveyor'', dict_get parameters ''capacityOfMainConveyor'' 800),
      (''quantityOfVagonsToSilageAtOnce'', dict_get parameters ''quantityOfVagonsToSilageAtOnce'' 8),
      (''quantityOfVehicleDischargeStations'',
         dict_get parameters ''quantityOfVehicleDischargeStations'' 2),
      (''numberOfVehicleSilages'', dict_get parameters ''numberOfVehicleSilages'' 2),
      (''capacityOfVehicleSilages'', dict_get parameters ''capacityOfVehicleSilages'' 800),
      (''quantityOfSilages'', dict_get parameters ''quantityOfSilages'' 17),
      (''yearsModelWorking'', dict_get parameters ''yearsModelWorking'' 1)]"

text \<open>The body of the \<^verbatim>\<open>try\<close> block of \<^verbatim>\<open>run_simulation\<close>; \<open>Inl\<close> is a raised exception.\<close>

definition run_simulation_try ::
    "((string \<times> int) list \<Rightarrow> http_outcome) \<Rightarrow> (string \<times> int) list
      \<Rightarrow> py_exception + sim_result option" where
  "run_simulation_try post parameters =
     (case post (iteration_data parameters) of
        PostRaises e \<Rightarrow> Inl e
      | Response status_code body \<Rightarrow> if status_code = 200 then body else Inr None)"

text \<open>
  The two handlers, in the order of the source: \<^verbatim>\<open>except requests.exceptions.Timeout\<close>
  and then \<^verbatim>\<open>except Exception\<close>; both log and return \<^verbatim>\<open>None\<close>.
\<close>

definition run_simulation ::
    "((string \<times> int) list \<Rightarrow> http_outcome) \<Rightarrow> (string \<times> int) list
      \<Rightarrow> py_exception + sim_result option" where
  "run_simulation post parameters =
     (case run_simulation_try post parameters of
        Inl Timeout \<Rightarrow> Inr None
      | Inl e \<Rightarrow> Inr None
      | Inr r \<Rightarrow> Inr r)"

section \<open>Solution identity and evaluation (genetic\_optimizer.py)\<close>

text \<open>The format \<^verbatim>\<open>{n:06d}\<close>: the decimal digits of \<open>n\<close>, zero-padded to six places.\<close>

fun decimal :: "nat \<Rightarrow> string" where
  "decimal n = (if n < 10 then [''0123456789'' ! n]
                else decimal (n div 10) @ [''0123456789'' ! (n mod 10)])"

declare decimal.simps [simp del]

definition format_06d :: "nat \<Rightarrow> string" where
  "format_06d n = replicate (6 - length (decimal n)) CHR ''0'' @ decimal n"

record solution_record =
  rec_id :: string
  rec_parameters :: "(string \<times> int) list"
  rec_kpis :: "pyfloat list"
  rec_timestamp :: string
  rec_generation :: "nat option"

text \<open>
  The ID tracking fields of \<^verbatim>\<open>GeneticOptimizer\<close>. \<^verbatim>\<open>solution_ids\<close> is a dictionary from
  hash values to identifiers, kept as an association list with \<^verbatim>\<open>len\<close> its length.
\<close>

record registry =
  solution_counter :: nat
  solution_ids :: "(int \<times> string) list"
  solution_history :: "solution_record list"

definition init_registry :: registry where
  "init_registry = \<lparr>solution_counter = 0, solution_ids = [], solution_history = []\<rparr>"

text \<open>
  \<^verbatim>\<open>_get_or_create_solution_id\<close>. The key is \<^verbatim>\<open>hash(tuple(sorted(parameters.items())))\<close>:
  the items are sorted as Python sorts tuples (lexicographically), and the built-in
  \<^verbatim>\<open>hash\<close> is the parameter \<open>hsh\<close>. \<open>now\<close> is the value of
  \<^verbatim>\<open>datetime.now().isoformat()\<close>. The final dictionary read is a branch of its own.
\<close>

definition get_or_create_solution_id ::
    "((string \<times> int) list \<Rightarrow> int) \<Rightarrow> string \<Rightarrow> registry \<Rightarrow> (string \<times> int) list \<Rightarrow> pyfloat list
      \<Rightarrow> (py_exception + string) \<times> registry" where
  "get_or_create_solution_id hsh now st parameters kpis =
     (let param_hash = hsh (sort parameters);
          st' = (if map_of (solution_ids st) param_hash = None then
                   (let counter = solution_counter st + 1;
                        solution_id = ''SOL_'' @ format_06d counter
                    in st\<lparr>solution_counter := counter,
                          solution_ids := AList.update param_hash solution_id (solution_ids st),
                          solution_history := solution_history st @
                            [\<lparr>rec_id = solution_id, rec_parameters = parameters,
                              rec_kpis = kpis, rec_timestamp = now, rec_generation = None\<rparr>]\<rparr>)
                 else st)
      in (case map_of (solution_ids st') param_hash of
            None \<Rightarrow> Inl (KeyError ''param_hash'')
          | Some solution_id \<Rightarrow> Inr solution_id,
          st'))"

text \<open>\<^verbatim>\<open>_individual_to_parameters\<close> reads the genes 0 to 7; a shorter list raises.\<close>

definition individual_to_parameters :: "int list \<Rightarrow> py_exception + (string \<times> int) list" where
  "individual_to_parameters individual =
     (if length individual < 8 then Inl IndexError
      else Inr [(''varOfWork'', individual ! 0),
                (''capacityOfMainConveyor'', individual ! 1),
                (''quantityOfVagonsToSilageAtOnce'', individual ! 2),
                (''quantityOfVehicleDischargeStations'', individual ! 3),
                (''numberOfVehicleSilages'', individual ! 4),
                (''capacityOfVehicleSilages'', individual ! 5),
                (''quantityOfSilages'', individual ! 6),
                (''yearsModelWorking'', individual ! 7)])"

text \<open>The value returned on failure: the worst value of each of the five objectives.\<close>

definition sentinel :: "pyfloat list" where
  "sentinel = [NegInf, PosInf, PosInf, NegInf, PosInf]"

text \<open>
  The \<^verbatim>\<open>try\<close> block of \<^verbatim>\<open>_evaluate_individual\<close>. \<open>oracle\<close> is
  \<^verbatim>\<open>self.java_interface.run_simulation\<close>. A result that is not a dictionary has no
  \<^verbatim>\<open>get\<close>, which raises \<^verbatim>\<open>AttributeError\<close> before the registry is touched.
\<close>

definition evaluate_try ::
    "((string \<times> int) list \<Rightarrow> int) \<Rightarrow> string
      \<Rightarrow> ((string \<times> int) list \<Rightarrow> py_exception + sim_result option)
      \<Rightarrow> registry \<Rightarrow> (string \<times> int) list \<Rightarrow> (py_exception + pyfloat list) \<times> registry" where
  "evaluate_try hsh now oracle st parameters =
     (case oracle parameters of
        Inl e \<Rightarrow> (Inl e, st)
      | Inr None \<Rightarrow> (Inr sentinel, st)
      | Inr (Some ResultOther) \<Rightarrow> (Inl AttributeError, st)
      | Inr (Some (ResultDict results)) \<Rightarrow>
          (let kpis = [dict_get results ''vesselsHandledQtt'' (Fin 0),
                       dict_get results ''primeCost'' PosInf,
                       dict_get results ''handlingTime'' PosInf,
                       dict_get results ''profit'' NegInf,
                       dict_get results ''timeAtTerminal'' PosInf]
           in case get_or_create_solution_id hsh now st parameters kpis of
                (Inl e, st') \<Rightarrow> (Inl e, st')
              | (Inr solution_id, st') \<Rightarrow> (Inr kpis, st')))"

text \<open>
  \<^verbatim>\<open>_evaluate_individual\<close>: the parameters are built outside the \<^verbatim>\<open>try\<close>; any exception
  raised inside it is answered with the sentinel.
\<close>

definition evaluate_individual ::
    "((string \<times> int) list \<Rightarrow> int) \<Rightarrow> string
      \<Rightarrow> ((string \<times> int) list \<Rightarrow> py_exception + sim_result option)
      \<Rightarrow> registry \<Rightarrow> int list \<Rightarrow> (py_exception + pyfloat list) \<times> registry" where
  "evaluate_individual hsh now oracle st individual =
     (case individual_to_parameters individual of
        Inl e \<Rightarrow> (Inl e, st)
      | Inr parameters \<Rightarrow>
          (case evaluate_try hsh now oracle st parameters of
             (Inl e, st') \<Rightarrow> (Inr sentinel, st')
           | (Inr values, st') \<Rightarrow> (Inr values, st')))"

text \<open>
  A run of evaluations: each one comes with the clock reading, the answer of the oracle to
  that call and the individual. Only the registry is threaded through.
\<close>

type_synonym evaluation = "string \<times> (py_exception + sim_result option) \<times> int list"

fun evaluate_all :: "((string \<times> int) list \<Rightarrow> int) \<Rightarrow> registry \<Rightarrow> evaluation list \<Rightarrow> registry" where
  "evaluate_all hsh st [] = st"
| "evaluate_all hsh st ((now, answer, individual) # evs) =
     evaluate_all hsh (snd (evaluate_individual hsh now (\<lambda>parameters. answer) st individual)) evs"

text \<open>The hash keys of the evaluations that reach \<^verbatim>\<open>_get_or_create_solution_id\<close>.\<close>

fun registered_keys :: "((string \<times> int) list \<Rightarrow> int) \<Rightarrow> evaluation list \<Rightarrow> int list" where
  "registered_keys hsh [] = []"
| "registered_keys hsh ((now, answer, individual) # evs) =
     (case (individual_to_parameters individual, answer) of
        (Inr parameters, Inr (Some (ResultDict results))) \<Rightarrow>
           hsh (sort parameters) # registered_keys hsh evs
      | _ \<Rightarrow> registered_keys hsh evs)"

section \<open>Sampling and variation (genetic\_optimizer.py and the DEAP operators it registers)\<close>

definition parameter_bounds :: "(string \<times> int \<times> int) list" where
  "parameter_bounds =
     [(''varOfWork'', 3, 3),
      (''capacityOfMainConveyor'', 800, 1200),
      (''quantityOfVagonsToSilageAtOnce'', 8, 10),
      (''quantityOfVehicleDischargeStations'', 2, 4),
      (''numberOfVehicleSilages'', 2, 4),
      (''capacityOfVehicleSilages'', 800, 1000),
      (''quantityOfSilages'', 18, 20),
      (''yearsModelWorking'', 1, 1)]"

text \<open>
  \<^verbatim>\<open>random.randint(a, b)\<close> returns an integer of the inclusive range and raises
  \<^verbatim>\<open>ValueError\<close> on an empty range. \<open>r\<close> is the raw number the generator produces for
  this call; the distribution of \<open>r\<close> is not part of the model.
\<close>

definition randint :: "int \<Rightarrow> int \<Rightarrow> nat \<Rightarrow> py_exception + int" where
  "randint a b r = (if b < a then Inl ValueError else Inr (a + int r mod (b - a + 1)))"

text \<open>
  \<^verbatim>\<open>toolbox.individual\<close> is \<^verbatim>\<open>initCycle\<close> over the eight attribute generators with
  \<^verbatim>\<open>n=1\<close>: each generator, a \<^verbatim>\<open>randint\<close> over the bound of its own gene, is called once,
  in the order of registration. \<open>draw i\<close> is the raw number behind the \<open>i\<close>-th call.
\<close>

fun init_cycle :: "(string \<times> int \<times> int) list \<Rightarrow> (nat \<Rightarrow> nat) \<Rightarrow> nat \<Rightarrow> py_exception + int list" where
  "init_cycle [] draw i = Inr []"
| "init_cycle ((name, lo, hi) # bs) draw i =
     (case randint lo hi (draw i) of
        Inl e \<Rightarrow> Inl e
      | Inr v \<Rightarrow>
          (case init_cycle bs draw (Suc i) of
             Inl e \<Rightarrow> Inl e
           | Inr vs \<Rightarrow> Inr (v # vs)))"

definition toolbox_individual :: "(nat \<Rightarrow> nat) \<Rightarrow> py_exception + int list" where
  "toolbox_individual draw = init_cycle parameter_bounds draw 0"

text \<open>
  \<^verbatim>\<open>_mutate_individual\<close>: the loop over \<^verbatim>\<open>enumerate(self.parameter_bounds.items())\<close>.
  \<open>u i\<close> is the value of \<^verbatim>\<open>random.random()\<close> drawn for gene \<open>i\<close> and \<open>r i\<close> the raw
  number behind the \<^verbatim>\<open>randint\<close> of gene \<open>i\<close>, should it be called. The right-hand side
  of the assignment is evaluated before the write, which raises on a missing position.
\<close>

fun mutate_loop ::
    "real \<Rightarrow> (nat \<Rightarrow> real) \<Rightarrow> (nat \<Rightarrow> nat) \<Rightarrow> nat \<Rightarrow> (string \<times> int \<times> int) list \<Rightarrow> int list
      \<Rightarrow> py_exception + int list" where
  "mutate_loop rate u r i [] individual = Inr individual"
| "mutate_loop rate u r i ((param_name, lo, hi) # bs) individual =
     (if u i < rate then
        (case randint lo hi (r i) of
           Inl e \<Rightarrow> Inl e
         | Inr v \<Rightarrow>
             if i < length individual
             then mutate_loop rate u r (Suc i) bs (individual[i := v])
             else Inl IndexError)
      else mutate_loop rate u r (Suc i) bs individual)"

definition mutate_individual ::
    "real \<Rightarrow> (nat \<Rightarrow> real) \<Rightarrow> (nat \<Rightarrow> nat) \<Rightarrow> int list \<Rightarrow> py_exception + int list" where
  "mutate_individual mutation_rate u r individual =
     mutate_loop mutation_rate u r 0 parameter_bounds individual"

text \<open>
  \<^verbatim>\<open>tools.cxTwoPoint\<close>, the operator registered as \<^verbatim>\<open>mate\<close> (DEAP library code):
  \<^verbatim>\<open>cxpoint1 = randint(1, size)\<close>, \<^verbatim>\<open>cxpoint2 = randint(1, size - 1)\<close>, the second point
  is moved past the first or the two are swapped, and the slices between the points are
  exchanged.
\<close>

definition swap_slice :: "nat \<Rightarrow> nat \<Rightarrow> 'a list \<Rightarrow> 'a list \<Rightarrow> 'a list" where
  "swap_slice a b xs ys = take a xs @ take (b - a) (drop a ys) @ drop b xs"

definition cxTwoPoint ::
    "int list \<Rightarrow> int list \<Rightarrow> nat \<Rightarrow> nat \<Rightarrow> py_exception + (int list \<times> int list)" where
  "cxTwoPoint ind1 ind2 r1 r2 =
     (let size = int (min (length ind1) (length ind2)) in
      case randint 1 size r1 of
        Inl e \<Rightarrow> Inl e
      | Inr cxpoint1 \<Rightarrow>
          (case randint 1 (size - 1) r2 of
             Inl e \<Rightarrow> Inl e
           | Inr cxpoint2 \<Rightarrow>
               (let (p1, p2) = (if cxpoint2 \<ge> cxpoint1 then (cxpoint1, cxpoint2 + 1)
                                else (cxpoint2, cxpoint1))
                in Inr (swap_slice (nat p1) (nat p2) ind1 ind2,
                        swap_slice (nat p1) (nat p2) ind2 ind1))))"

text \<open>
  One offspring of \<^verbatim>\<open>algorithms.varOr\<close>, the variation step of
  \<^verbatim>\<open>algorithms.eaMuPlusLambda\<close> (DEAP library code). The function first executes
  \<^verbatim>\<open>assert (cxpb + mutpb) <= 1.0\<close>, which raises \<^verbatim>\<open>AssertionError\<close> before any offspring
  is made. Then one draw \<^verbatim>\<open>op_choice = random.random()\<close> selects crossover
  (\<^verbatim>\<open>op_choice < cxpb\<close>), mutation (\<^verbatim>\<open>op_choice < cxpb + mutpb\<close>) or plain reproduction.
  The sum \<^verbatim>\<open>cxpb + mutpb\<close> is a sum of Python floats: \<open>float_add\<close> is that addition, whose
  rounding is not fixed here, so the step is defined for whatever the addition returns.
  \<open>parent1\<close> and \<open>parent2\<close> are the individuals that \<^verbatim>\<open>random.sample\<close> and
  \<^verbatim>\<open>random.choice\<close> pick from the population.
\<close>

record draws =
  op_choice :: real
  parent1 :: "int list"
  parent2 :: "int list"
  cx_r1 :: nat
  cx_r2 :: nat
  mut_u :: "nat \<Rightarrow> real"
  mut_r :: "nat \<Rightarrow> nat"

definition varOr_offspring ::
    "(real \<Rightarrow> real \<Rightarrow> real) \<Rightarrow> real \<Rightarrow> real \<Rightarrow> real \<Rightarrow> draws \<Rightarrow> py_exception + int list" where
  "varOr_offspring float_add cxpb mutpb mutation_rate d =
     (if \<not> float_add cxpb mutpb \<le> 1 then Inl AssertionError
      else if op_choice d < cxpb then
        (case cxTwoPoint (parent1 d) (parent2 d) (cx_r1 d) (cx_r2 d) of
           Inl e \<Rightarrow> Inl e
         | Inr (ind1, ind2) \<Rightarrow> Inr ind1)
      else if op_choice d < float_add cxpb mutpb then
        mutate_individual mutation_rate (mut_u d) (mut_r d) (parent1 d)
      else Inr (parent1 d))"

text \<open>
  \<^verbatim>\<open>optimize\<close> calls \<^verbatim>\<open>eaMuPlusLambda\<close> with \<^verbatim>\<open>cxpb=self.crossover_rate\<close> and
  \<^verbatim>\<open>mutpb=self.mutation_rate\<close>, and \<^verbatim>\<open>toolbox.mutate\<close> reads \<^verbatim>\<open>self.mutation_rate\<close>.
\<close>

definition optimize_offspring ::
    "(real \<Rightarrow> real \<Rightarrow> real) \<Rightarrow> real \<Rightarrow> real \<Rightarrow> draws \<Rightarrow> py_exception + int list" where
  "optimize_offspring float_add crossover_rate mutation_rate d =
     varOr_offspring float_add crossover_rate mutation_rate mutation_rate d"

text \<open>Every gene within the bound of its position.\<close>

definition in_bounds :: "(string \<times> int \<times> int) list \<Rightarrow> int list \<Rightarrow> bool" where
  "in_bounds bs g = list_all2 (\<lambda>(name, lo, hi) v. lo \<le> v \<and> v \<le> hi) bs g"

section \<open>The built-in hash\<close>

text \<open>
  What CPython (64-bit) fixes about \<^verbatim>\<open>hash\<close> on the key tuple. The hash of an integer is
  the integer reduced modulo \<open>2^61 - 1\<close> with its sign, and \<open>-1\<close>, which is reserved, is
  replaced by \<open>-2\<close>. The hash of a tuple is computed from the hashes of its items alone.
  The hash of a string and the mixing function of tuples stay parameters.
\<close>

definition int_hash :: "int \<Rightarrow> int" where
  "int_hash n = (let h = sgn n * (\<bar>n\<bar> mod (2 ^ 61 - 1)) in if h = - 1 then - 2 else h)"

definition cpython_hash :: "(string \<Rightarrow> int) \<Rightarrow> (int list \<Rightarrow> int) \<Rightarrow> (string \<times> int) list \<Rightarrow> int" where
  "cpython_hash str_hash tuple_hash items =
     tuple_hash (map (\<lambda>(k, v). tuple_hash [str_hash k, int_hash v]) items)"

section \<open>The live archive\<close>

datatype direction = Maximize | Minimize

text \<open>\<^verbatim>\<open>self.objectives\<close>, in the order of the fitness tuple (weights 1, -1, -1, 1, -1).\<close>

definition objectives :: "(string \<times> direction) list" where
  "objectives =
     [(''vesselsHandledQtt'', Maximize),
      (''primeCost'', Minimize),
      (''handlingTime'', Minimize),
      (''profit'', Maximize),
      (''timeAtTerminal'', Minimize)]"

fun at_least_as_good :: "direction \<Rightarrow> pyfloat \<Rightarrow> pyfloat \<Rightarrow> bool" where
  "at_least_as_good Maximize a b = (b \<le> a)"
| "at_least_as_good Minimize a b = (a \<le> b)"

fun strictly_better :: "direction \<Rightarrow> pyfloat \<Rightarrow> pyfloat \<Rightarrow> bool" where
  "strictly_better Maximize a b = (b < a)"
| "strictly_better Minimize a b = (a < b)"

text \<open>
  Modelled from the spec: the dominance rule of the selector and of the archive, which the
  source leaves to the DEAP library (\<^verbatim>\<open>base.Fitness\<close>, \<^verbatim>\<open>tools.ParetoFront\<close>; not part of
  the repository). Spec 4.5: "after sign-normalizing minimize objectives to a shared maximize
  convention, individual A dominates B iff A \<open>\<ge>\<close> B on every objective and A > B on at
  least one".
\<close>

definition dominates :: "direction list \<Rightarrow> pyfloat list \<Rightarrow> pyfloat list \<Rightarrow> bool" where
  "dominates dirs a b =
     (list_all (\<lambda>(d, x, y). at_least_as_good d x y) (zip dirs (zip a b)) \<and>
      list_ex (\<lambda>(d, x, y). strictly_better d x y) (zip dirs (zip a b)))"

definition fitness_dominates :: "pyfloat list \<Rightarrow> pyfloat list \<Rightarrow> bool" where
  "fitness_dominates a b = dominates (map snd objectives) a b"

text \<open>An evaluated individual: its genome and its fitness values.\<close>

type_synonym evaluated = "int list \<times> pyfloat list"

text \<open>
  Modelled from the spec: the update of the archive by one newly evaluated individual
  (DEAP's \<^verbatim>\<open>tools.ParetoFront.update\<close>, not part of the repository). Spec 3: "ParetoArchive entries
  are added when a newly evaluated individual is non-dominated by the current archive, and
  removed when a later individual dominates them"; spec 4.6: "dropping archive members now
  dominated and rejecting duplicate-genome entries".
\<close>

definition archive_add :: "evaluated \<Rightarrow> evaluated list \<Rightarrow> evaluated list" where
  "archive_add ind archive =
     (if list_ex (\<lambda>h. fitness_dominates (snd h) (snd ind)) archive then archive
      else (let kept = filter (\<lambda>h. \<not> fitness_dominates (snd ind) (snd h)) archive
            in if list_ex (\<lambda>h. fst h = fst ind) kept then kept else kept @ [ind]))"

fun archive_update :: "evaluated list \<Rightarrow> evaluated list \<Rightarrow> evaluated list" where
  "archive_update archive [] = archive"
| "archive_update archive (ind # population) = archive_update (archive_add ind archive) population"

section \<open>The persisted record (save\_results, json, extract\_pareto\_data)\<close>

text \<open>The Python values that are written, and the JSON values a file holds.\<close>

datatype py =
    PyNone
  | PyInt int
  | PyFloat pyfloat
  | PyStr string
  | PyList "py list"
  | PyTuple "py list"
  | PyDict "(string \<times> py) list"

datatype json =
    JNull
  | JInt int
  | JFloat pyfloat
  | JString string
  | JArray "json list"
  | JObject "(string \<times> json) list"

text \<open>
  \<^verbatim>\<open>json.dump\<close> writes lists and tuples as arrays and \<^verbatim>\<open>None\<close> as \<^verbatim>\<open>null\<close>;
  \<^verbatim>\<open>json.load\<close> reads an array as a list. The text of the file is taken at the level of
  the JSON value it denotes: the printing and parsing of digits and quotes are the
  library's.
\<close>

fun json_dump :: "py \<Rightarrow> json" where
  "json_dump PyNone = JNull"
| "json_dump (PyInt n) = JInt n"
| "json_dump (PyFloat x) = JFloat x"
| "json_dump (PyStr s) = JString s"
| "json_dump (PyList xs) = JArray (map json_dump xs)"
| "json_dump (PyTuple xs) = JArray (map json_dump xs)"
| "json_dump (PyDict kvs) = JObject (map (\<lambda>(k, v). (k, json_dump v)) kvs)"

fun json_load :: "json \<Rightarrow> py" where
  "json_load JNull = PyNone"
| "json_load (JInt n) = PyInt n"
| "json_load (JFloat x) = PyFloat x"
| "json_load (JString s) = PyStr s"
| "json_load (JArray xs) = PyList (map json_load xs)"
| "json_load (JObject kvs) = PyDict (map (\<lambda>(k, v). (k, json_load v)) kvs)"

text \<open>The hyperparameters of the optimizer, as \<^verbatim>\<open>__init__\<close> stores them.\<close>

record hyperparameters =
  population_size :: nat
  generations :: nat
  mutation_rate :: real
  crossover_rate :: real

text \<open>A DEAP individual as \<^verbatim>\<open>save_results\<close> sees it: the genes and, if valid, the fitness values.\<close>

type_synonym individual = "int list \<times> pyfloat list option"

text \<open>The dictionary appended for one individual of the population or of the front.\<close>

definition save_entry ::
    "((string \<times> int) list \<Rightarrow> int) \<Rightarrow> registry \<Rightarrow> individual \<Rightarrow> py_exception + py" where
  "save_entry hsh st individual =
     (case individual_to_parameters (fst individual) of
        Inl e \<Rightarrow> Inl e
      | Inr params \<Rightarrow>
          (let param_hash = hsh (sort params);
               solution_id = dict_get (solution_ids st) param_hash ''UNKNOWN''
           in Inr (PyDict
                [(''id'', PyStr solution_id),
                 (''parameters'', PyDict (map (\<lambda>(k, v). (k, PyInt v)) params)),
                 (''fitness'', (case snd individual of
                                  None \<Rightarrow> PyNone
                                | Some values \<Rightarrow> PyTuple (map PyFloat values)))])))"

fun save_entries ::
    "((string \<times> int) list \<Rightarrow> int) \<Rightarrow> registry \<Rightarrow> individual list \<Rightarrow> py_exception + py list" where
  "save_entries hsh st [] = Inr []"
| "save_entries hsh st (individual # rest) =
     (case save_entry hsh st individual of
        Inl e \<Rightarrow> Inl e
      | Inr entry \<Rightarrow>
          (case save_entries hsh st rest of
             Inl e \<Rightarrow> Inl e
           | Inr entries \<Rightarrow> Inr (entry # entries)))"

definition history_entry :: "solution_record \<Rightarrow> py" where
  "history_entry r =
     PyDict [(''id'', PyStr (rec_id r)),
             (''parameters'', PyDict (map (\<lambda>(k, v). (k, PyInt v)) (rec_parameters r))),
             (''kpis'', PyList (map PyFloat (rec_kpis r))),
             (''timestamp'', PyStr (rec_timestamp r)),
             (''generation'', (case rec_generation r of None \<Rightarrow> PyNone | Some g \<Rightarrow> PyInt (int g)))]"

definition optimization_metadata :: "hyperparameters \<Rightarrow> registry \<Rightarrow> (string \<times> py) list" where
  "optimization_metadata hp st =
     [(''total_solutions_evaluated'', PyInt (int (solution_counter st))),
      (''unique_solutions'', PyInt (int (length (solution_ids st)))),
      (''population_size'', PyInt (int (population_size hp))),
      (''generations'', PyInt (int (generations hp))),
      (''mutation_rate'', PyFloat (Fin (mutation_rate hp))),
      (''crossover_rate'', PyFloat (Fin (crossover_rate hp)))]"

text \<open>
  \<^verbatim>\<open>save_results\<close>: the value handed to \<^verbatim>\<open>json.dump\<close>. The population is appended
  first, then the front.
\<close>

definition save_results ::
    "((string \<times> int) list \<Rightarrow> int) \<Rightarrow> hyperparameters \<Rightarrow> registry \<Rightarrow> individual list
      \<Rightarrow> individual list \<Rightarrow> py_exception + json" where
  "save_results hsh hp st population pareto_front =
     (case save_entries hsh st population of
        Inl e \<Rightarrow> Inl e
      | Inr pop_entries \<Rightarrow>
          (case save_entries hsh st pareto_front of
             Inl e \<Rightarrow> Inl e
           | Inr front_entries \<Rightarrow>
               Inr (json_dump (PyDict
                 [(''population'', PyList pop_entries),
                  (''pareto_front'', PyList front_entries),
                  (''solution_history'', PyList (map history_entry (solution_history st))),
                  (''parameter_bounds'',
                     PyDict (map (\<lambda>(k, lo, hi). (k, PyTuple [PyInt lo, PyInt hi])) parameter_bounds)),
                  (''objectives'',
                     PyDict (map (\<lambda>(k, d). (k, PyStr (case d of Maximize \<Rightarrow> ''maximize''
                                                         | Minimize \<Rightarrow> ''minimize''))) objectives)),
                  (''optimization_metadata'', PyDict (optimization_metadata hp st))]))))"

text \<open>\<^verbatim>\<open>_load_results\<close> and \<^verbatim>\<open>load_results\<close>: \<^verbatim>\<open>json.load\<close> of the file.\<close>

definition load_results :: "json \<Rightarrow> py" where
  "load_results file = json_load file"

text \<open>
  How the readers take an entry apart: \<^verbatim>\<open>solution["id"]\<close>, \<^verbatim>\<open>solution["parameters"]\<close>
  as name/value pairs and \<^verbatim>\<open>solution["fitness"]\<close> as the sequence of its values
  (indexing works on a list as on a tuple), or \<^verbatim>\<open>None\<close>.
\<close>

fun int_items :: "(string \<times> py) list \<Rightarrow> (string \<times> int) list option" where
  "int_items [] = Some []"
| "int_items ((k, PyInt n) # kvs) = map_option (\<lambda>rest. (k, n) # rest) (int_items kvs)"
| "int_items _ = None"

fun float_items :: "py list \<Rightarrow> pyfloat list option" where
  "float_items [] = Some []"
| "float_items (PyFloat x # xs) = map_option (\<lambda>rest. x # rest) (float_items xs)"
| "float_items _ = None"

fun entry_triple :: "py \<Rightarrow> (string \<times> (string \<times> int) list \<times> pyfloat list option) option" where
  "entry_triple (PyDict kvs) =
     (case (map_of kvs ''id'', map_of kvs ''parameters'', map_of kvs ''fitness'') of
        (Some (PyStr i), Some (PyDict ps), Some PyNone) \<Rightarrow>
           map_option (\<lambda>params. (i, params, None)) (int_items ps)
      | (Some (PyStr i), Some (PyDict ps), Some (PyList xs)) \<Rightarrow>
           (case (int_items ps, float_items xs) of
              (Some params, Some values) \<Rightarrow> Some (i, params, Some values)
            | _ \<Rightarrow> None)
      | (Some (PyStr i), Some (PyDict ps), Some (PyTuple xs)) \<Rightarrow>
           (case (int_items ps, float_items xs) of
              (Some params, Some values) \<Rightarrow> Some (i, params, Some values)
            | _ \<Rightarrow> None)
      | _ \<Rightarrow> None)"
| "entry_triple _ = None"

text \<open>\<^verbatim>\<open>results.get(key, [])\<close> on the loaded value.\<close>

fun entries_of :: "py \<Rightarrow> string \<Rightarrow> py list" where
  "entries_of (PyDict kvs) key = (case map_of kvs key of Some (PyList xs) \<Rightarrow> xs | _ \<Rightarrow> [])"
| "entries_of _ key = []"

text \<open>
  \<^verbatim>\<open>extract_pareto_data\<close>: one row per entry of the stored front whose fitness is truthy,
  made of the parameters followed by the five KPI columns \<^verbatim>\<open>fitness[0]\<close> to
  \<^verbatim>\<open>fitness[4]\<close>. Integers and floats are both numbers in the frame.
\<close>

fun extract_pareto_data ::
    "(string \<times> (string \<times> int) list \<times> pyfloat list option) list \<Rightarrow> py_exception + pyfloat row list" where
  "extract_pareto_data [] = Inr []"
| "extract_pareto_data ((i, params, fitness) # rest) =
     (case fitness of
        None \<Rightarrow> extract_pareto_data rest
      | Some values \<Rightarrow>
          if values = [] then extract_pareto_data rest
          else if length values < 5 then Inl IndexError
          else (case extract_pareto_data rest of
                  Inl e \<Rightarrow> Inl e
                | Inr rows \<Rightarrow>
                    Inr ((AList.merge (map (\<lambda>(k, v). (k, Fin (real_of_int v))) params)
                           [(''vesselsHandledQtt'', values ! 0),
                            (''primeCost'', values ! 1),
                            (''handlingTime'', values ! 2),
                            (''profit'', values ! 3),
                            (''timeAtTerminal'', values ! 4)]) # rows)))"

section \<open>Invariants and concrete inputs\<close>

text \<open>The bookkeeping invariant of the ID tracking fields.\<close>

definition registry_inv :: "registry \<Rightarrow> bool" where
  "registry_inv st =
     (solution_counter st = length (solution_ids st) \<and>
      length (solution_ids st) = length (solution_history st) \<and>
      distinct (map fst (solution_ids st)))"

text \<open>The defaults that \<^verbatim>\<open>run_simulation\<close> writes into its \<^verbatim>\<open>get\<close> calls.\<close>

definition gene_defaults :: "(string \<times> int) list" where
  "gene_defaults =
     [(''varOfWork'', 3),
      (''capacityOfMainConveyor'', 800),
      (''quantityOfVagonsToSilageAtOnce'', 8),
      (''quantityOfVehicleDischargeStations'', 2),
      (''numberOfVehicleSilages'', 2),
      (''capacityOfVehicleSilages'', 800),
      (''quantityOfSilages'', 17),
      (''yearsModelWorking'', 1)]"

text \<open>A concrete hash, a genome and oracle answers for evaluating the model.\<close>

definition toy_str_hash :: "string \<Rightarrow> int" where
  "toy_str_hash s = int (length s)"

definition toy_tuple_hash :: "int list \<Rightarrow> int" where
  "toy_tuple_hash hs = foldl (\<lambda>acc h. 31 * acc + h) 7 hs"

definition toy_hash :: "(string \<times> int) list \<Rightarrow> int" where
  "toy_hash = cpython_hash toy_str_hash toy_tuple_hash"

definition genome0 :: "int list" where
  "genome0 = [3, 800, 8, 2, 2, 800, 18, 1]"

definition kpi_answer :: "py_exception + sim_result option" where
  "kpi_answer = Inr (Some (ResultDict
     [(''vesselsHandledQtt'', Fin 10), (''primeCost'', Fin 5), (''handlingTime'', Fin 5),
      (''profit'', Fin 10), (''timeAtTerminal'', Fin 5)]))"

definition failed_answer :: "py_exception + sim_result option" where
  "failed_answer = Inr None"

definition timeout_post :: "(string \<times> int) list \<Rightarrow> http_outcome" where
  "timeout_post payload = PostRaises Timeout"

text \<open>
  \<^verbatim>\<open>plot_parallel_coordinates\<close> passes the objective columns of the frame to
  \<^verbatim>\<open>StandardScaler().fit_transform\<close>, which rejects an infinite value with
  \<^verbatim>\<open>ValueError\<close>.
\<close>

definition scaler_rejects :: "pyfloat row list \<Rightarrow> bool" where
  "scaler_rejects df =
     list_ex (\<lambda>r. list_ex (\<lambda>kpi. map_of r kpi = Some NegInf \<or> map_of r kpi = Some PosInf)
                     kpi_names) df"

text \<open>
  The Pareto solutions of \<^verbatim>\<open>generate_comprehensive_report\<close>: \<^verbatim>\<open>load_results\<close>, then
  \<^verbatim>\<open>extract_pareto_data\<close> over the stored front, then the plots, then
  \<^verbatim>\<open>identify_pareto_frontier(df, self.kpi_names)\<close>. The report is the empty dictionary
  (here \<open>None\<close>) when the loaded results or the frame are empty. The plots run before
  the extraction and do not change the frame; of them the model keeps the step that raises
  on a frame that \<^verbatim>\<open>extract_pareto_data\<close> can build, the scaling of the parallel
  coordinates plot. The figures, the summary statistics and the files written are left out.
\<close>

definition generate_comprehensive_report ::
    "json \<Rightarrow> py_exception + (nat \<times> pyfloat row) list option" where
  "generate_comprehensive_report file =
     (let results = load_results file in
      if results = PyDict [] then Inr None
      else
        (case those (map entry_triple (entries_of results ''pareto_front'')) of
           None \<Rightarrow> Inl (KeyError ''fitness'')
         | Some entries \<Rightarrow>
             (case extract_pareto_data entries of
                Inl e \<Rightarrow> Inl e
              | Inr df \<Rightarrow>
                  if df = [] then Inr None
                  else if scaler_rejects df then Inl ValueError
                  else (case identify_pareto_frontier df (Some kpi_names) of
                          Inl e \<Rightarrow> Inl e
                        | Inr pareto_df \<Rightarrow> Inr (Some pareto_df)))))"

text \<open>Two solutions with the same objective values.\<close>

definition twin_a :: "int row" where
  "twin_a = [(''capacityOfMainConveyor'', 800), (''vesselsHandledQtt'', 10), (''profit'', 7)]"

definition twin_b :: "int row" where
  "twin_b = [(''capacityOfMainConveyor'', 900), (''vesselsHandledQtt'', 10), (''profit'', 7)]"

text \<open>Two evaluated individuals with different genomes and the same fitness.\<close>

definition arch_a :: evaluated where
  "arch_a = ([3, 800, 8, 2, 2, 800, 18, 1], [Fin 10, Fin 5, Fin 5, Fin 10, Fin 5])"

definition arch_b :: evaluated where
  "arch_b = ([3, 801, 8, 2, 2, 800, 18, 1], [Fin 10, Fin 5, Fin 5, Fin 10, Fin 5])"

text \<open>Two parameter dictionaries that differ in one value, \<open>-1\<close> against \<open>-2\<close>.\<close>

definition params_m1 :: "(string \<times> int) list" where
  "params_m1 =
     [(''varOfWork'', - 1), (''capacityOfMainConveyor'', 800),
      (''quantityOfVagonsToSilageAtOnce'', 8), (''quantityOfVehicleDischargeStations'', 2),
      (''numberOfVehicleSilages'', 2), (''capacityOfVehicleSilages'', 800),
      (''quantityOfSilages'', 18), (''yearsModelWorking'', 1)]"

definition params_m2 :: "(string \<times> int) list" where
  "params_m2 =
     [(''varOfWork'', - 2), (''capacityOfMainConveyor'', 800),
      (''quantityOfVagonsToSilageAtOnce'', 8), (''quantityOfVehicleDischargeStations'', 2),
      (''numberOfVehicleSilages'', 2), (''capacityOfVehicleSilages'', 800),
      (''quantityOfSilages'', 18), (''yearsModelWorking'', 1)]"

text \<open>Every bound is a non-empty range.\<close>

definition wf_bounds :: "(string \<times> int \<times> int) list \<Rightarrow> bool" where
  "wf_bounds bs = list_all (\<lambda>(name, lo, hi). lo \<le> hi) bs"

text \<open>
  Concrete genomes and draws. The rates and operator draws used with them are multiples
  of \<open>1/8\<close>, on which the addition of floats is the exact sum.
\<close>

definition genome1 :: "int list" where
  "genome1 = [3, 1200, 10, 4, 4, 1000, 20, 1]"

definition zero_draw :: "nat \<Rightarrow> nat" where
  "zero_draw i = 0"

definition raw7 :: "nat \<Rightarrow> nat" where
  "raw7 i = 7"

definition low_u :: "nat \<Rightarrow> real" where
  "low_u i = 0"

definition reproduction_draws :: draws where
  "reproduction_draws =
     \<lparr>op_choice = 7 / 8, parent1 = genome0, parent2 = genome1, cx_r1 = 2, cx_r2 = 5,
      mut_u = low_u, mut_r = raw7\<rparr>"

definition mutation_draws :: draws where
  "mutation_draws =
     \<lparr>op_choice = 5 / 8, parent1 = genome0, parent2 = genome1, cx_r1 = 2, cx_r2 = 5,
      mut_u = low_u, mut_r = raw7\<rparr>"

definition crossover_draws :: draws where
  "crossover_draws =
     \<lparr>op_choice = 1 / 4, parent1 = genome0, parent2 = genome1, cx_r1 = 2, cx_r2 = 5,
      mut_u = low_u, mut_r = raw7\<rparr>"

text \<open>States of the archive with respect to failed individuals.\<close>

definition archive_clean :: "evaluated list \<Rightarrow> bool" where
  "archive_clean archive = (archive \<noteq> [] \<and> (\<forall>h \<in> set archive. snd h \<noteq> sentinel))"

definition archive_all_failed :: "evaluated list \<Rightarrow> bool" where
  "archive_all_failed archive = (\<forall>h \<in> set archive. snd h = sentinel)"

definition five_valued :: "evaluated list \<Rightarrow> bool" where
  "five_valued inds = (\<forall>h \<in> set inds. length (snd h) = 5)"

text \<open>An oracle that always fails, and a fitness with a single value that is not the worst.\<close>

definition failing_oracle :: "(string \<times> int) list \<Rightarrow> py_exception + sim_result option" where
  "failing_oracle parameters = Inr None"

definition one_valid :: "pyfloat list" where
  "one_valid = [Fin 0, PosInf, PosInf, NegInf, PosInf]"

definition mixed_population :: "evaluated list" where
  "mixed_population = [(genome0, sentinel), (genome1, one_valid)]"

text \<open>
  The \<open>{id, parameters, fitness}\<close> triple of an individual, as \<^verbatim>\<open>save_results\<close> computes
  it from the genes, the registry and the fitness.
\<close>

definition individual_triple ::
    "((string \<times> int) list \<Rightarrow> int) \<Rightarrow> registry \<Rightarrow> individual
      \<Rightarrow> (string \<times> (string \<times> int) list \<times> pyfloat list option) option" where
  "individual_triple hsh st individual =
     (case individual_to_parameters (fst individual) of
        Inl e \<Rightarrow> None
      | Inr params \<Rightarrow>
          Some (dict_get (solution_ids st) (hsh (sort params)) ''UNKNOWN'', params,
                snd individual))"

text \<open>Concrete hyperparameters, registry, population and front.\<close>

definition hyperparameters0 :: hyperparameters where
  "hyperparameters0 =
     \<lparr>population_size = 50, generations = 100, mutation_rate = 1 / 10, crossover_rate = 7 / 10\<rparr>"

definition registry1 :: registry where
  "registry1 = evaluate_all toy_hash init_registry [(''t1'', kpi_answer, genome0)]"

definition fitness0 :: "pyfloat list" where
  "fitness0 = [Fin 10, Fin 5, Fin 5, Fin 10, Fin 5]"

definition params0 :: "(string \<times> int) list" where
  "params0 =
     [(''varOfWork'', 3), (''capacityOfMainConveyor'', 800),
      (''quantityOfVagonsToSilageAtOnce'', 8), (''quantityOfVehicleDischargeStations'', 2),
      (''numberOfVehicleSilages'', 2), (''capacityOfVehicleSilages'', 800),
      (''quantityOfSilages'', 18), (''yearsModelWorking'', 1)]"

definition population0 :: "individual list" where
  "population0 = [(genome0, Some fitness0), (genome0, None)]"

definition front0 :: "individual list" where
  "front0 = [(genome0, Some fitness0)]"



text \<open>
  The test that keeps the \<^verbatim>\<open>dominates\<close> flag for one objective, and frames whose rows have
  every objective column.
\<close>

definition not_worse :: "string \<Rightarrow> ('a::linorder) row \<Rightarrow> 'a row \<Rightarrow> bool" where
  "not_worse obj rj ri =
     (case (map_of rj obj, map_of ri obj) of
        (Some vj, Some vi) \<Rightarrow>
          if obj \<in> set [''vesselsHandledQtt'', ''profit''] then \<not> vj < vi else \<not> vj > vi
      | _ \<Rightarrow> False)"

definition has_columns :: "string list \<Rightarrow> 'a row \<Rightarrow> bool" where
  "has_columns objs r = (\<forall>obj \<in> set objs. map_of r obj \<noteq> None)"







section \<open>Properties of the Pareto extraction\<close>

lemma upt4: "[0..<4] = [0, 1, 2, 3]"
  by (simp add: upt_rec)

text \<open>
  C1. In the tie scenario the extractor should return both rows with \<open>y = 2\<close>. The code
  returns no row at all: each of the two tied rows clears the other's mask, because the
  \<^verbatim>\<open>dominates\<close> flag only requires "not worse on any objective".
\<close>

theorem C1_tie_scenario_front_is_empty:
  "length tie_df = 4 \<and> identify_pareto_frontier tie_df (Some [''y'']) = Inr []"
  by (simp add: identify_pareto_frontier_def tie_df_def upt4)

section \<open>The oracle boundary never raises\<close>

text \<open>
  C10. \<^verbatim>\<open>run_simulation\<close> returns for every input and every behaviour of the transport:
  the decoded JSON value when the status is 200 and the body decodes, and \<^verbatim>\<open>None\<close> in
  every other case (timeout, any other exception of the request or of the decoding, any
  other status). The payload sent always has the eight genes, a gene absent from the input
  dictionary carrying the fixed default of the source.
\<close>

theorem C10_run_simulation_never_raises:
  "run_simulation post parameters =
     Inr (case post (iteration_data parameters) of
            Response status_code (Inr r) \<Rightarrow> if status_code = 200 then r else None
          | _ \<Rightarrow> None)
   \<and> iteration_data parameters = map (\<lambda>(k, d). (k, dict_get parameters k d)) gene_defaults
   \<and> (\<forall>(k, d) \<in> set gene_defaults.
         map_of parameters k = None \<longrightarrow> map_of (iteration_data parameters) k = Some d)"
proof (intro conjI)
  show "run_simulation post parameters =
     Inr (case post (iteration_data parameters) of
            Response status_code (Inr r) \<Rightarrow> if status_code = 200 then r else None
          | _ \<Rightarrow> None)"
    by (simp add: run_simulation_def run_simulation_try_def
        split: http_outcome.splits sum.splits py_exception.splits)
  show "iteration_data parameters = map (\<lambda>(k, d). (k, dict_get parameters k d)) gene_defaults"
    by (simp add: iteration_data_def gene_defaults_def)
  show "\<forall>(k, d) \<in> set gene_defaults.
         map_of parameters k = None \<longrightarrow> map_of (iteration_data parameters) k = Some d"
    by (simp add: iteration_data_def gene_defaults_def dict_get_def)
qed

theorem C10_witness:
  "run_simulation timeout_post [(''varOfWork'', 3)] = Inr None
   \<and> map_of [(''varOfWork'', 3 :: int)] ''quantityOfSilages'' = None
   \<and> map_of (iteration_data [(''varOfWork'', 3)]) ''quantityOfSilages'' = Some 17"
proof -
  note c10 = C10_run_simulation_never_raises [of timeout_post "[(''varOfWork'', 3)]"]
  have mem: "(''quantityOfSilages'', 17) \<in> set gene_defaults"
    by (simp add: gene_defaults_def)
  have none: "map_of [(''varOfWork'', 3 :: int)] ''quantityOfSilages'' = None"
    by simp
  have run: "run_simulation timeout_post [(''varOfWork'', 3)] = Inr None"
    using c10 [THEN conjunct1] by (simp add: timeout_post_def)
  have "map_of (iteration_data [(''varOfWork'', 3)]) ''quantityOfSilages'' = Some 17"
    using c10 [THEN conjunct2, THEN conjunct2, THEN bspec, OF mem] none by fast
  with run none show ?thesis by fast
qed

section \<open>The bookkeeping of the registry\<close>

lemma length_update_new: "map_of al k = None \<Longrightarrow> length (AList.update k v al) = Suc (length al)"
  by (induction al) (auto split: if_splits)

lemma get_or_create_inv:
  "registry_inv st \<Longrightarrow> registry_inv (snd (get_or_create_solution_id hsh now st ps kpis))"
  by (auto simp: registry_inv_def get_or_create_solution_id_def Let_def length_update_new
      distinct_update)

lemma get_or_create_keys:
  "map fst (solution_ids (snd (get_or_create_solution_id hsh now st ps kpis))) =
     (if hsh (sort ps) \<in> set (map fst (solution_ids st)) then map fst (solution_ids st)
      else map fst (solution_ids st) @ [hsh (sort ps)])"
  by (auto simp: get_or_create_solution_id_def Let_def map_of_eq_None_iff update_keys)

lemma get_or_create_key_set:
  "fst ` set (solution_ids (snd (get_or_create_solution_id hsh now st ps kpis))) =
     insert (hsh (sort ps)) (fst ` set (solution_ids st))"
  using get_or_create_keys[of hsh now st ps kpis, THEN arg_cong, of set]
  by (auto split: if_splits)

lemma evaluate_individual_snd:
  "snd (evaluate_individual hsh now oracle st individual) =
     (case individual_to_parameters individual of
        Inr ps \<Rightarrow>
          (case oracle ps of
             Inr (Some (ResultDict results)) \<Rightarrow>
               snd (get_or_create_solution_id hsh now st ps
                 [dict_get results ''vesselsHandledQtt'' (Fin 0),
                  dict_get results ''primeCost'' PosInf,
                  dict_get results ''handlingTime'' PosInf,
                  dict_get results ''profit'' NegInf,
                  dict_get results ''timeAtTerminal'' PosInf])
           | _ \<Rightarrow> st)
      | _ \<Rightarrow> st)"
  by (auto simp: evaluate_individual_def evaluate_try_def Let_def
      split: sum.splits option.splits sim_result.splits prod.splits)

lemma evaluate_individual_inv:
  "registry_inv st \<Longrightarrow> registry_inv (snd (evaluate_individual hsh now oracle st individual))"
  by (auto simp: evaluate_individual_snd get_or_create_inv
      split: sum.splits option.splits sim_result.splits)

lemma evaluate_all_inv:
  "registry_inv st \<Longrightarrow> registry_inv (evaluate_all hsh st evs)"
  by (induction hsh st evs rule: evaluate_all.induct) (auto simp: evaluate_individual_inv)

lemma evaluate_individual_keys:
  "fst ` set (solution_ids (snd (evaluate_individual hsh now (\<lambda>p. answer) st individual))) =
   fst ` set (solution_ids st) \<union> set (registered_keys hsh [(now, answer, individual)])"
  by (simp add: evaluate_individual_snd get_or_create_key_set
      split: sum.splits option.splits sim_result.splits)

lemma evaluate_all_keys:
  "fst ` set (solution_ids (evaluate_all hsh st evs)) =
   fst ` set (solution_ids st) \<union> set (registered_keys hsh evs)"
proof (induction hsh st evs rule: evaluate_all.induct)
  case (1 hsh st)
  then show ?case by simp
next
  case (2 hsh st now answer individual evs)
  have "set (registered_keys hsh ((now, answer, individual) # evs)) =
        set (registered_keys hsh [(now, answer, individual)]) \<union> set (registered_keys hsh evs)"
    by (auto split: sum.splits option.splits sim_result.splits)
  with 2 show ?case
    by (simp only: evaluate_all.simps evaluate_individual_keys) blast
qed

lemma init_inv: "registry_inv init_registry"
  by (simp add: registry_inv_def init_registry_def)

text \<open>
  C9. After any run of evaluations from the initial registry, \<^verbatim>\<open>solution_counter\<close>,
  \<^verbatim>\<open>len(solution_ids)\<close> and \<^verbatim>\<open>len(solution_history)\<close> agree, so the persisted metadata
  reports \<^verbatim>\<open>total_solutions_evaluated\<close> equal to \<^verbatim>\<open>unique_solutions\<close>; the counter is the
  number of distinct keys among the evaluations that reached the registry, not the number
  of oracle calls; and an evaluation whose oracle call returns \<^verbatim>\<open>None\<close> or raises returns
  the sentinel and leaves the registry as it was.
\<close>

theorem C9_registry_bookkeeping:
  "solution_counter (evaluate_all hsh init_registry evs) =
     length (solution_ids (evaluate_all hsh init_registry evs))
   \<and> length (solution_ids (evaluate_all hsh init_registry evs)) =
     length (solution_history (evaluate_all hsh init_registry evs))
   \<and> solution_counter (evaluate_all hsh init_registry evs) = card (set (registered_keys hsh evs))
   \<and> map_of (optimization_metadata hp (evaluate_all hsh init_registry evs))
        ''total_solutions_evaluated'' =
      map_of (optimization_metadata hp (evaluate_all hsh init_registry evs)) ''unique_solutions''
   \<and> (8 \<le> length individual \<longrightarrow> (answer = Inr None \<or> answer = Inl e) \<longrightarrow>
        evaluate_individual hsh now (\<lambda>parameters. answer) st individual = (Inr sentinel, st))"
proof -
  let ?st = "evaluate_all hsh init_registry evs"
  have inv: "registry_inv ?st"
    by (rule evaluate_all_inv[OF init_inv])
  have keys: "fst ` set (solution_ids ?st) = set (registered_keys hsh evs)"
    by (simp add: evaluate_all_keys init_registry_def)
  have "card (set (registered_keys hsh evs)) = length (map fst (solution_ids ?st))"
    using inv keys distinct_card[of "map fst (solution_ids ?st)"] by (simp add: registry_inv_def)
  moreover have "8 \<le> length individual \<longrightarrow> (answer = Inr None \<or> answer = Inl e) \<longrightarrow>
        evaluate_individual hsh now (\<lambda>parameters. answer) st individual = (Inr sentinel, st)"
    by (auto simp: evaluate_individual_def evaluate_try_def individual_to_parameters_def)
  ultimately show ?thesis
    using inv by (simp add: registry_inv_def optimization_metadata_def)
qed

theorem C9_witness:
  "solution_counter (evaluate_all toy_hash init_registry
      [(''t1'', kpi_answer, genome0), (''t2'', failed_answer, genome0),
       (''t3'', kpi_answer, genome0)]) = 1
   \<and> length (solution_history (evaluate_all toy_hash init_registry
      [(''t1'', kpi_answer, genome0), (''t2'', failed_answer, genome0),
       (''t3'', kpi_answer, genome0)])) = 1
   \<and> 8 \<le> length genome0
   \<and> evaluate_individual toy_hash ''t2'' (\<lambda>parameters. failed_answer) init_registry genome0 =
       (Inr sentinel, init_registry)"
proof -
  define evs where "evs = [(''t1'', kpi_answer, genome0), (''t2'', failed_answer, genome0),
        (''t3'', kpi_answer, genome0)]"
  note c9 = C9_registry_bookkeeping [where hsh = toy_hash and evs = evs
      and individual = genome0 and answer = failed_answer
      and now = "''t2''" and st = init_registry]
  have len: "8 \<le> length genome0"
    by (simp add: genome0_def)
  have keys: "card (set (registered_keys toy_hash evs)) = 1"
    by (simp add: evs_def kpi_answer_def failed_answer_def genome0_def
        individual_to_parameters_def)
  have fail: "failed_answer = Inr None \<or> failed_answer = Inl e" for e
    by (simp add: failed_answer_def)
  note c9_ids = c9 [THEN conjunct1]
  note c9_history = c9 [THEN conjunct2, THEN conjunct1]
  note c9_card = c9 [THEN conjunct2, THEN conjunct2, THEN conjunct1]
  have counter: "solution_counter (evaluate_all toy_hash init_registry evs) = 1"
    using c9_card keys by simp
  have history: "length (solution_history (evaluate_all toy_hash init_registry evs)) = 1"
    using c9_ids c9_history counter by simp
  have sent: "evaluate_individual toy_hash ''t2'' (\<lambda>parameters. failed_answer) init_registry
      genome0 = (Inr sentinel, init_registry)"
    using c9 len fail by blast
  from counter history len sent show ?thesis
    unfolding evs_def by blast
qed

lemma upt2: "[0..<2] = [0, 1]"
  by (simp add: upt_rec)

text \<open>
  C2. The dominance test of the extractor should be asymmetric. It is not: for two
  solutions with identical objective values the \<^verbatim>\<open>dominates\<close> flag holds in both
  directions, and the extractor drops both of them.
\<close>

theorem C2_equal_solutions_dominate_each_other:
  "twin_a \<noteq> twin_b
   \<and> dominates_loop twin_a twin_b [''vesselsHandledQtt'', ''profit''] = Inr True
   \<and> dominates_loop twin_b twin_a [''vesselsHandledQtt'', ''profit''] = Inr True
   \<and> identify_pareto_frontier [twin_a, twin_b] None = Inr []"
  by (simp add: twin_a_def twin_b_def identify_pareto_frontier_def upt2)

section \<open>Identifiers under a colliding hash\<close>

lemma sort_m1: "sort params_m1 =
   [(''capacityOfMainConveyor'', 800), (''capacityOfVehicleSilages'', 800),
    (''numberOfVehicleSilages'', 2), (''quantityOfSilages'', 18),
    (''quantityOfVagonsToSilageAtOnce'', 8), (''quantityOfVehicleDischargeStations'', 2),
    (''varOfWork'', - 1), (''yearsModelWorking'', 1)]"
  unfolding params_m1_def by code_simp

lemma sort_m2: "sort params_m2 =
   [(''capacityOfMainConveyor'', 800), (''capacityOfVehicleSilages'', 800),
    (''numberOfVehicleSilages'', 2), (''quantityOfSilages'', 18),
    (''quantityOfVagonsToSilageAtOnce'', 8), (''quantityOfVehicleDischargeStations'', 2),
    (''varOfWork'', - 2), (''yearsModelWorking'', 1)]"
  unfolding params_m2_def by code_simp

lemma int_hash_collision: "int_hash (- 1) = int_hash (- 2)"
  by (simp add: int_hash_def)

lemma hash_collision:
  "cpython_hash str_hash tuple_hash (sort params_m1) = cpython_hash str_hash tuple_hash (sort params_m2)"
  by (simp add: sort_m1 sort_m2 cpython_hash_def int_hash_collision)

lemma format1: "format_06d (Suc 0) = ''000001''"
  by (simp add: format_06d_def decimal.simps [of "Suc 0"] eval_nat_numeral)

text \<open>
  The key of the registry is the hash of the key tuple, not the tuple. CPython gives \<open>-1\<close>
  and \<open>-2\<close> the same hash, so of two dictionaries that differ in these two values the
  second is answered with the identifier of the first, and neither the counter nor the
  history advances, whatever the string hash and the tuple mixing function are. Both
  values lie outside every bound of \<^verbatim>\<open>parameter_bounds\<close>; on the genomes of a run the
  identifiers are distinct as long as the hash separates their key tuples.
\<close>

lemma colliding_hash_shares_identifier:
  "params_m1 \<noteq> params_m2
   \<and> fst (get_or_create_solution_id (cpython_hash str_hash tuple_hash) now init_registry
           params_m1 kpis) = Inr ''SOL_000001''
   \<and> fst (get_or_create_solution_id (cpython_hash str_hash tuple_hash) now'
           (snd (get_or_create_solution_id (cpython_hash str_hash tuple_hash) now init_registry
                  params_m1 kpis))
           params_m2 kpis') = Inr ''SOL_000001''
   \<and> solution_counter (snd (get_or_create_solution_id (cpython_hash str_hash tuple_hash) now'
           (snd (get_or_create_solution_id (cpython_hash str_hash tuple_hash) now init_registry
                  params_m1 kpis))
           params_m2 kpis')) = 1
   \<and> length (solution_history (snd (get_or_create_solution_id (cpython_hash str_hash tuple_hash) now'
           (snd (get_or_create_solution_id (cpython_hash str_hash tuple_hash) now init_registry
                  params_m1 kpis))
           params_m2 kpis'))) = 1"
proof -
  have ne: "params_m1 \<noteq> params_m2"
    by (simp add: params_m1_def params_m2_def)
  have first: "get_or_create_solution_id (cpython_hash str_hash tuple_hash) now init_registry
      params_m1 kpis =
      (Inr ''SOL_000001'',
       \<lparr>solution_counter = 1,
        solution_ids = [(cpython_hash str_hash tuple_hash (sort params_m1), ''SOL_000001'')],
        solution_history = [\<lparr>rec_id = ''SOL_000001'', rec_parameters = params_m1,
           rec_kpis = kpis, rec_timestamp = now, rec_generation = None\<rparr>]\<rparr>)"
    by (simp add: get_or_create_solution_id_def init_registry_def Let_def format1)
  have second: "get_or_create_solution_id (cpython_hash str_hash tuple_hash) now'
      \<lparr>solution_counter = 1,
        solution_ids = [(cpython_hash str_hash tuple_hash (sort params_m1), ''SOL_000001'')],
        solution_history = [\<lparr>rec_id = ''SOL_000001'', rec_parameters = params_m1,
           rec_kpis = kpis, rec_timestamp = now, rec_generation = None\<rparr>]\<rparr>
      params_m2 kpis' =
      (Inr ''SOL_000001'',
       \<lparr>solution_counter = 1,
        solution_ids = [(cpython_hash str_hash tuple_hash (sort params_m1), ''SOL_000001'')],
        solution_history = [\<lparr>rec_id = ''SOL_000001'', rec_parameters = params_m1,
           rec_kpis = kpis, rec_timestamp = now, rec_generation = None\<rparr>]\<rparr>)"
    by (simp add: get_or_create_solution_id_def Let_def hash_collision)
  show ?thesis
    unfolding first snd_conv fst_conv second by (simp add: ne)
qed

section \<open>The extractor against the live archive\<close>

lemma archive_ab: "archive_update [] [arch_a, arch_b] = [arch_a, arch_b]"
  by (simp add: archive_add_def arch_a_def arch_b_def fitness_dominates_def dominates_def
      objectives_def less_pyfloat_def)

lemma upt2': "[0..<Suc (Suc 0)] = [0, 1]"
  by (simp add: upt_rec)

text \<open>
  C3. The extractor should reproduce the final archive. An archive that holds two
  individuals with different genomes and equal fitness (neither dominates the other, so
  the archive keeps both) is saved, reloaded and passed through the report generator with
  the five objectives: the extracted front is empty.
\<close>

theorem C3_equal_fitness_archive_is_lost:
  "archive_update [] [arch_a, arch_b] = [arch_a, arch_b]
   \<and> fst arch_a \<noteq> fst arch_b
   \<and> (\<exists>file. save_results hsh hp st []
                [(fst arch_a, Some (snd arch_a)), (fst arch_b, Some (snd arch_b))] = Inr file
              \<and> generate_comprehensive_report file = Inr (Some []))"
proof (intro conjI)
  show "archive_update [] [arch_a, arch_b] = [arch_a, arch_b]"
    by (rule archive_ab)
  show "fst arch_a \<noteq> fst arch_b"
    by (simp add: arch_a_def arch_b_def)
  show "\<exists>file. save_results hsh hp st []
                [(fst arch_a, Some (snd arch_a)), (fst arch_b, Some (snd arch_b))] = Inr file
              \<and> generate_comprehensive_report file = Inr (Some [])"
    by (simp add: save_results_def save_entry_def individual_to_parameters_def arch_a_def
        arch_b_def generate_comprehensive_report_def load_results_def kpi_names_def
        scaler_rejects_def
        identify_pareto_frontier_def upt2' less_pyfloat_def)
qed

section \<open>Genes stay within their bounds\<close>

lemma randint_range:
  "a \<le> b \<Longrightarrow> \<exists>v. randint a b r = Inr v \<and> a \<le> v \<and> v \<le> b"
proof -
  assume ab: "a \<le> b"
  then have pos: "0 < b - a + 1" by simp
  have "0 \<le> int r mod (b - a + 1)" "int r mod (b - a + 1) < b - a + 1"
    using pos by (rule pos_mod_sign, rule pos_mod_bound)
  then show ?thesis
    using ab by (simp add: randint_def)
qed

lemma randint_onto:
  "a \<le> v \<Longrightarrow> v \<le> b \<Longrightarrow> randint a b (nat (v - a)) = Inr v"
  by (simp add: randint_def)

lemma init_cycle_in_bounds:
  "wf_bounds bs \<Longrightarrow> \<exists>g. init_cycle bs draw i = Inr g \<and> in_bounds bs g"
proof (induction bs arbitrary: i)
  case Nil
  then show ?case by (simp add: in_bounds_def)
next
  case (Cons b bs)
  obtain name lo hi where b: "b = (name, lo, hi)" by (cases b) auto
  from Cons.prems have lohi: "lo \<le> hi" and wf: "wf_bounds bs"
    by (simp_all add: wf_bounds_def b)
  from randint_range[OF lohi] obtain v where v: "randint lo hi (draw i) = Inr v" "lo \<le> v" "v \<le> hi"
    by blast
  from Cons.IH[OF wf] obtain g where g: "init_cycle bs draw (Suc i) = Inr g" "in_bounds bs g"
    by blast
  show ?case
    using v g by (simp add: b in_bounds_def)
qed

lemma mutate_loop_in_bounds:
  "wf_bounds bs \<Longrightarrow> length pre = i \<Longrightarrow> in_bounds bs suf \<Longrightarrow>
     \<exists>suf'. mutate_loop rate u r i bs (pre @ suf) = Inr (pre @ suf') \<and> in_bounds bs suf'"
proof (induction bs arbitrary: i pre suf)
  case Nil
  then show ?case by (simp add: in_bounds_def)
next
  case (Cons b bs)
  obtain name lo hi where b: "b = (name, lo, hi)" by (cases b) auto
  from Cons.prems(1) have lohi: "lo \<le> hi" and wf: "wf_bounds bs"
    by (simp_all add: wf_bounds_def b)
  from Cons.prems(3) obtain x xs where suf: "suf = x # xs" and x: "lo \<le> x" "x \<le> hi"
    and xs: "in_bounds bs xs"
    by (auto simp: in_bounds_def b list_all2_Cons1)
  show ?case
  proof (cases "u i < rate")
    case True
    from randint_range[OF lohi] obtain v where v: "randint lo hi (r i) = Inr v" "lo \<le> v" "v \<le> hi"
      by blast
    have len: "length (pre @ [v]) = Suc i" using Cons.prems(2) by simp
    from Cons.IH[OF wf len xs] obtain suf' where
      s: "mutate_loop rate u r (Suc i) bs ((pre @ [v]) @ xs) = Inr ((pre @ [v]) @ suf')"
      "in_bounds bs suf'" by blast
    have upd: "(pre @ x # xs)[i := v] = (pre @ [v]) @ xs"
      using Cons.prems(2) by (simp add: list_update_append)
    have "mutate_loop rate u r i (b # bs) (pre @ suf) = Inr (pre @ (v # suf'))"
      using True v s(1) Cons.prems(2) by (simp add: b suf upd)
    moreover have "in_bounds (b # bs) (v # suf')"
      using v s(2) by (simp add: in_bounds_def b)
    ultimately show ?thesis by blast
  next
    case False
    have len: "length (pre @ [x]) = Suc i" using Cons.prems(2) by simp
    from Cons.IH[OF wf len xs] obtain suf' where
      s: "mutate_loop rate u r (Suc i) bs ((pre @ [x]) @ xs) = Inr ((pre @ [x]) @ suf')"
      "in_bounds bs suf'" by blast
    have "mutate_loop rate u r i (b # bs) (pre @ suf) = Inr (pre @ (x # suf'))"
      using False s(1) by (simp add: b suf)
    moreover have "in_bounds (b # bs) (x # suf')"
      using x s(2) by (simp add: in_bounds_def b)
    ultimately show ?thesis by blast
  qed
qed

lemma swap_slice_self: "a \<le> b \<Longrightarrow> swap_slice a b xs xs = xs"
proof -
  assume "a \<le> b"
  then have "take a xs @ take (b - a) (drop a xs) = take b xs"
    using take_add[of a "b - a" xs] by simp
  then show ?thesis
    by (simp add: swap_slice_def flip: append_assoc)
qed

lemma swap_slice_in_bounds:
  assumes "a \<le> b" "in_bounds bs g1" "in_bounds bs g2"
  shows "in_bounds bs (swap_slice a b g1 g2)"
proof -
  let ?P = "\<lambda>(name, lo, hi) v. lo \<le> (v::int) \<and> v \<le> hi"
  have 1: "list_all2 ?P (take a bs) (take a g1)"
    using assms(2) by (simp add: in_bounds_def list_all2_takeI)
  have 2: "list_all2 ?P (take (b - a) (drop a bs)) (take (b - a) (drop a g2))"
    using assms(3) by (simp add: in_bounds_def list_all2_takeI list_all2_dropI)
  have 3: "list_all2 ?P (drop b bs) (drop b g1)"
    using assms(2) by (simp add: in_bounds_def list_all2_dropI)
  have "list_all2 ?P (swap_slice a b bs bs) (swap_slice a b g1 g2)"
    unfolding swap_slice_def by (intro list_all2_appendI 1 2 3)
  then show ?thesis
    by (simp add: swap_slice_self[OF assms(1)] in_bounds_def)
qed

lemma cxTwoPoint_in_bounds:
  assumes "2 \<le> length bs" "in_bounds bs g1" "in_bounds bs g2"
  shows "\<exists>c1 c2. cxTwoPoint g1 g2 r1 r2 = Inr (c1, c2) \<and> in_bounds bs c1 \<and> in_bounds bs c2"
proof -
  have l1: "length g1 = length bs" and l2: "length g2 = length bs"
    using assms(2,3) by (auto simp: in_bounds_def dest: list_all2_lengthD)
  let ?size = "int (min (length g1) (length g2))"
  have sz: "1 \<le> ?size" "1 \<le> ?size - 1"
    using assms(1) l1 l2 by simp_all
  from randint_range[OF sz(1)] obtain p where p: "randint 1 ?size r1 = Inr p" "1 \<le> p"
    by blast
  from randint_range[OF sz(2)] obtain q where q: "randint 1 (?size - 1) r2 = Inr q" "1 \<le> q"
    by blast
  show ?thesis
  proof (cases "q \<ge> p")
    case True
    then have ord: "nat p \<le> nat (q + 1)" by simp
    have "cxTwoPoint g1 g2 r1 r2 =
        Inr (swap_slice (nat p) (nat (q + 1)) g1 g2, swap_slice (nat p) (nat (q + 1)) g2 g1)"
      using p q True by (simp add: cxTwoPoint_def Let_def)
    then show ?thesis
      using swap_slice_in_bounds[OF ord assms(2,3)] swap_slice_in_bounds[OF ord assms(3,2)]
      by simp
  next
    case False
    then have ord: "nat q \<le> nat p" by simp
    have "cxTwoPoint g1 g2 r1 r2 =
        Inr (swap_slice (nat q) (nat p) g1 g2, swap_slice (nat q) (nat p) g2 g1)"
      using p q False by (simp add: cxTwoPoint_def Let_def)
    then show ?thesis
      using swap_slice_in_bounds[OF ord assms(2,3)] swap_slice_in_bounds[OF ord assms(3,2)]
      by simp
  qed
qed

lemma wf_parameter_bounds: "wf_bounds parameter_bounds"
  by (simp add: wf_bounds_def parameter_bounds_def)

lemma mutate_individual_in_bounds:
  "in_bounds parameter_bounds g \<Longrightarrow>
     \<exists>g'. mutate_individual rate u r g = Inr g' \<and> in_bounds parameter_bounds g'"
  using mutate_loop_in_bounds[OF wf_parameter_bounds, of "[]" 0 g rate u r]
  by (simp add: mutate_individual_def)

lemma mutate_loop_per_gene:
  "wf_bounds bs \<Longrightarrow> length pre = i \<Longrightarrow> length suf = length bs \<Longrightarrow>
     \<exists>suf'. mutate_loop rate u r i bs (pre @ suf) = Inr (pre @ suf') \<and> length suf' = length bs \<and>
       (\<forall>k<length bs. case bs ! k of (name, lo, hi) \<Rightarrow>
           if u (i + k) < rate then randint lo hi (r (i + k)) = Inr (suf' ! k)
           else suf' ! k = suf ! k)"
proof (induction bs arbitrary: i pre suf)
  case Nil
  then show ?case by simp
next
  case (Cons b bs)
  obtain name lo hi where b: "b = (name, lo, hi)" by (cases b) auto
  from Cons.prems(1) have lohi: "lo \<le> hi" and wf: "wf_bounds bs"
    by (simp_all add: wf_bounds_def b)
  from Cons.prems(3) obtain x xs where suf: "suf = x # xs" and xs: "length xs = length bs"
    by (cases suf) auto
  from randint_range[OF lohi] obtain v where v: "randint lo hi (r i) = Inr v"
    by blast
  define y where "y = (if u i < rate then v else x)"
  have len: "length (pre @ [y]) = Suc i" using Cons.prems(2) by simp
  from Cons.IH[OF wf len xs] obtain suf' where
    s: "mutate_loop rate u r (Suc i) bs ((pre @ [y]) @ xs) = Inr ((pre @ [y]) @ suf')"
    "length suf' = length bs"
    "\<forall>k<length bs. case bs ! k of (name, lo, hi) \<Rightarrow>
           if u (Suc i + k) < rate then randint lo hi (r (Suc i + k)) = Inr (suf' ! k)
           else suf' ! k = xs ! k"
    by blast
  have upd: "(pre @ x # xs)[i := v] = (pre @ [v]) @ xs"
    using Cons.prems(2) by (simp add: list_update_append)
  have run: "mutate_loop rate u r i (b # bs) (pre @ suf) = Inr (pre @ (y # suf'))"
    using v s(1) Cons.prems(2) by (cases "u i < rate") (simp_all add: b suf upd y_def)
  have "case (b # bs) ! k of (name, lo, hi) \<Rightarrow>
           if u (i + k) < rate then randint lo hi (r (i + k)) = Inr ((y # suf') ! k)
           else (y # suf') ! k = suf ! k" if "k < length (b # bs)" for k
  proof (cases k)
    case 0
    then show ?thesis using v by (simp add: b suf y_def)
  next
    case (Suc k')
    with that have "k' < length bs" by simp
    with s(3) show ?thesis by (auto simp: Suc suf split: prod.splits if_splits)
  qed
  with run s(2) show ?case by auto
qed

lemma mutate_individual_per_gene:
  assumes "length g = 8"
  shows "\<exists>g'. mutate_individual rate u r g = Inr g' \<and> length g' = 8 \<and>
       (\<forall>k<8. case parameter_bounds ! k of (name, lo, hi) \<Rightarrow>
           if u k < rate then randint lo hi (r k) = Inr (g' ! k) else g' ! k = g ! k)"
proof -
  have l: "length parameter_bounds = 8" by (simp add: parameter_bounds_def)
  from assms l have "length g = length parameter_bounds" by simp
  from mutate_loop_per_gene[OF wf_parameter_bounds _ this, of "[]" 0 rate u r]
  show ?thesis by (simp add: mutate_individual_def l cong: if_cong)
qed

lemma init_cycle_per_gene:
  "wf_bounds bs \<Longrightarrow>
     \<exists>g. init_cycle bs draw i = Inr g \<and> length g = length bs \<and>
       (\<forall>k<length bs. case bs ! k of (name, lo, hi) \<Rightarrow> randint lo hi (draw (i + k)) = Inr (g ! k))"
proof (induction bs arbitrary: i)
  case Nil
  then show ?case by simp
next
  case (Cons b bs)
  obtain name lo hi where b: "b = (name, lo, hi)" by (cases b) auto
  from Cons.prems have lohi: "lo \<le> hi" and wf: "wf_bounds bs"
    by (simp_all add: wf_bounds_def b)
  from randint_range[OF lohi] obtain v where v: "randint lo hi (draw i) = Inr v"
    by blast
  from Cons.IH[OF wf, of "Suc i"] obtain g where g: "init_cycle bs draw (Suc i) = Inr g"
    "length g = length bs"
    "\<forall>k<length bs. case bs ! k of (name, lo, hi) \<Rightarrow> randint lo hi (draw (Suc i + k)) = Inr (g ! k)"
    by blast
  have "case (b # bs) ! k of (name, lo, hi) \<Rightarrow> randint lo hi (draw (i + k)) = Inr ((v # g) ! k)"
    if "k < length (b # bs)" for k
  proof (cases k)
    case 0
    then show ?thesis using v by (simp add: b)
  next
    case (Suc k')
    with that have "k' < length bs" by simp
    with g(3) show ?thesis by (auto simp: Suc split: prod.splits)
  qed
  moreover have "init_cycle (b # bs) draw i = Inr (v # g)"
    using v g(1) by (simp add: b)
  ultimately show ?case using g(2) by auto
qed

lemma init_cycle_cong:
  "(\<And>j. i \<le> j \<Longrightarrow> draw j = draw' j) \<Longrightarrow> init_cycle bs draw i = init_cycle bs draw' i"
proof (induction bs arbitrary: i)
  case Nil
  then show ?case by simp
next
  case (Cons b bs)
  obtain name lo hi where b: "b = (name, lo, hi)" by (cases b) auto
  have "init_cycle bs draw (Suc i) = init_cycle bs draw' (Suc i)"
    by (rule Cons.IH) (simp add: Cons.prems)
  moreover have "draw i = draw' i" by (simp add: Cons.prems)
  ultimately show ?case by (auto simp: b split: sum.splits)
qed

lemma init_cycle_onto:
  "in_bounds bs g \<Longrightarrow> \<exists>draw. init_cycle bs draw i = Inr g"
proof (induction bs arbitrary: g i)
  case Nil
  then show ?case by (simp add: in_bounds_def)
next
  case (Cons b bs)
  obtain name lo hi where b: "b = (name, lo, hi)" by (cases b) auto
  from Cons.prems obtain x xs where g: "g = x # xs" and x: "lo \<le> x" "x \<le> hi"
    and xs: "in_bounds bs xs"
    by (auto simp: in_bounds_def b list_all2_Cons1)
  from Cons.IH[OF xs, of "Suc i"] obtain draw where d: "init_cycle bs draw (Suc i) = Inr xs"
    by blast
  define draw' where "draw' = draw(i := nat (x - lo))"
  have "init_cycle bs draw' (Suc i) = init_cycle bs draw (Suc i)"
    by (rule init_cycle_cong) (simp add: draw'_def)
  moreover have "randint lo hi (draw' i) = Inr x"
    using randint_onto[OF x] by (simp add: draw'_def)
  ultimately have "init_cycle (b # bs) draw' i = Inr g"
    using d by (simp add: b g)
  then show ?case by blast
qed

lemma length_swap_slice:
  "a \<le> b \<Longrightarrow> b \<le> length xs \<Longrightarrow> length ys = length xs \<Longrightarrow>
     length (swap_slice a b xs ys) = length xs"
  by (simp add: swap_slice_def)

lemma nth_swap_slice:
  assumes "a \<le> b" "b \<le> length xs" "length ys = length xs" "k < length xs"
  shows "swap_slice a b xs ys ! k = (if a \<le> k \<and> k < b then ys ! k else xs ! k)"
proof -
  consider "k < a" | "a \<le> k" "k < b" | "b \<le> k" by linarith
  then show ?thesis
  proof cases
    case 1
    then show ?thesis using assms by (simp add: swap_slice_def nth_append)
  next
    case 2
    then have "k - a < b - a" by linarith
    with 2 show ?thesis using assms by (simp add: swap_slice_def nth_append)
  next
    case 3
    then have "\<not> k - a < b - a" "\<not> k < a" "b + (k - a - (b - a)) = k"
      using assms(1) by linarith+
    with 3 show ?thesis using assms by (simp add: swap_slice_def nth_append)
  qed
qed

lemma cxTwoPoint_segment:
  assumes "length g1 = 8" "length g2 = 8"
  shows "\<exists>c1 c2 a b. cxTwoPoint g1 g2 r1 r2 = Inr (c1, c2) \<and> 1 \<le> a \<and> a < b \<and> b \<le> 8
           \<and> length c1 = 8 \<and> length c2 = 8
           \<and> (\<forall>k<8. c1 ! k = (if a \<le> k \<and> k < b then g2 ! k else g1 ! k)
                  \<and> c2 ! k = (if a \<le> k \<and> k < b then g1 ! k else g2 ! k))"
proof -
  have sz: "int (min (length g1) (length g2)) = 8"
    using assms by simp
  from randint_range[of 1 8 r1] obtain p where p: "randint 1 8 r1 = Inr p" "1 \<le> p" "p \<le> 8"
    by auto
  from randint_range[of 1 7 r2] obtain q where q: "randint 1 7 r2 = Inr q" "1 \<le> q" "q \<le> 7"
    by auto
  define a where "a = (if q \<ge> p then nat p else nat q)"
  define b where "b = (if q \<ge> p then nat (q + 1) else nat p)"
  have ab: "1 \<le> a" "a < b" "b \<le> 8" "a \<le> b"
    using p q by (auto simp: a_def b_def)
  have run: "cxTwoPoint g1 g2 r1 r2 = Inr (swap_slice a b g1 g2, swap_slice a b g2 g1)"
    using p q by (simp add: cxTwoPoint_def sz a_def b_def)
  have l: "length (swap_slice a b g1 g2) = 8" "length (swap_slice a b g2 g1) = 8"
    using ab assms by (simp_all add: length_swap_slice)
  have n: "swap_slice a b g1 g2 ! k = (if a \<le> k \<and> k < b then g2 ! k else g1 ! k)
        \<and> swap_slice a b g2 g1 ! k = (if a \<le> k \<and> k < b then g1 ! k else g2 ! k)"
    if "k < 8" for k
    using nth_swap_slice[of a b g1 g2 k] nth_swap_slice[of a b g2 g1 k] ab assms that
    by simp
  from run ab(1,2,3) l n show ?thesis by blast
qed


lemma in_bounds_length: "in_bounds parameter_bounds g \<Longrightarrow> length g = 8"
  by (auto simp: in_bounds_def parameter_bounds_def dest: list_all2_lengthD)

text \<open>
  C7. Every genome the system produces has each gene inside the inclusive bound of its
  position in \<^verbatim>\<open>parameter_bounds\<close>. The sampled individual has eight genes, gene \<open>k\<close>
  being the value of \<^verbatim>\<open>randint\<close> over the bound of position \<open>k\<close>, and every genome
  within bounds can be sampled. Mutation of a genome within bounds gives a genome within
  bounds in which gene \<open>k\<close> is the value of \<^verbatim>\<open>randint\<close> over the bound of position \<open>k\<close>
  when its draw is below the rate and the old gene \<open>k\<close> otherwise. Two-point crossover
  of two genomes within bounds exchanges the genes of one segment of positions \<open>a \<le> k < b\<close>
  between the parents, position by position, and leaves the other genes where they are,
  so both children are within bounds. An offspring of the variation step is the first
  child of such a crossover, the result of such a mutation, or its parent, and is within
  bounds. \<^verbatim>\<open>randint\<close> over a bound returns only values of the bound, and every value of
  the bound is returned for some draw.
\<close>

theorem C7_genes_within_bounds:
  "(\<exists>g. toolbox_individual draw = Inr g \<and> length g = 8 \<and> in_bounds parameter_bounds g
        \<and> (\<forall>k<8. case parameter_bounds ! k of (name, lo, hi) \<Rightarrow>
               randint lo hi (draw k) = Inr (g ! k)))
   \<and> (in_bounds parameter_bounds g \<longrightarrow> (\<exists>draw'. toolbox_individual draw' = Inr g))
   \<and> (in_bounds parameter_bounds g \<longrightarrow>
        (\<exists>g'. mutate_individual rate u r g = Inr g' \<and> in_bounds parameter_bounds g'
           \<and> (\<forall>k<8. case parameter_bounds ! k of (name, lo, hi) \<Rightarrow>
                  if u k < rate then randint lo hi (r k) = Inr (g' ! k) else g' ! k = g ! k)))
   \<and> (in_bounds parameter_bounds g1 \<and> in_bounds parameter_bounds g2 \<longrightarrow>
        (\<exists>c1 c2 a b. cxTwoPoint g1 g2 r1 r2 = Inr (c1, c2)
           \<and> in_bounds parameter_bounds c1 \<and> in_bounds parameter_bounds c2
           \<and> 1 \<le> a \<and> a < b \<and> b \<le> 8
           \<and> (\<forall>k<8. c1 ! k = (if a \<le> k \<and> k < b then g2 ! k else g1 ! k)
                  \<and> c2 ! k = (if a \<le> k \<and> k < b then g1 ! k else g2 ! k))))
   \<and> (float_add cr mr \<le> 1 \<and> in_bounds parameter_bounds (parent1 d)
        \<and> in_bounds parameter_bounds (parent2 d) \<longrightarrow>
        (\<exists>child. optimize_offspring float_add cr mr d = Inr child
           \<and> in_bounds parameter_bounds child
           \<and> (op_choice d < cr \<longrightarrow>
                (\<exists>c2. cxTwoPoint (parent1 d) (parent2 d) (cx_r1 d) (cx_r2 d) = Inr (child, c2)))
           \<and> (cr \<le> op_choice d \<and> op_choice d < float_add cr mr \<longrightarrow>
                mutate_individual mr (mut_u d) (mut_r d) (parent1 d) = Inr child)
           \<and> (cr \<le> op_choice d \<and> float_add cr mr \<le> op_choice d \<longrightarrow> child = parent1 d)))
   \<and> (\<forall>(name, lo, hi) \<in> set parameter_bounds.
         (\<forall>raw. \<exists>v. randint lo hi raw = Inr v \<and> lo \<le> v \<and> v \<le> hi)
         \<and> (\<forall>v. lo \<le> v \<and> v \<le> hi \<longrightarrow> (\<exists>raw. randint lo hi raw = Inr v)))"
proof (intro conjI impI)
  have l: "length parameter_bounds = 8"
    by (simp add: parameter_bounds_def)
  have len: "2 \<le> length parameter_bounds"
    by (simp add: l)
  show "\<exists>g. toolbox_individual draw = Inr g \<and> length g = 8 \<and> in_bounds parameter_bounds g
        \<and> (\<forall>k<8. case parameter_bounds ! k of (name, lo, hi) \<Rightarrow>
               randint lo hi (draw k) = Inr (g ! k))"
  proof -
    from init_cycle_per_gene[OF wf_parameter_bounds, of draw 0] obtain g where
      g: "init_cycle parameter_bounds draw 0 = Inr g" "length g = length parameter_bounds"
      "\<forall>k<length parameter_bounds. case parameter_bounds ! k of (name, lo, hi) \<Rightarrow>
          randint lo hi (draw (0 + k)) = Inr (g ! k)"
      by blast
    from init_cycle_in_bounds[OF wf_parameter_bounds, of draw 0] g(1)
    have "in_bounds parameter_bounds g" by auto
    with g show ?thesis
      unfolding toolbox_individual_def l by simp
  qed
  show "\<exists>draw'. toolbox_individual draw' = Inr g" if "in_bounds parameter_bounds g"
    unfolding toolbox_individual_def by (rule init_cycle_onto[OF that])
  show "\<exists>g'. mutate_individual rate u r g = Inr g' \<and> in_bounds parameter_bounds g'
           \<and> (\<forall>k<8. case parameter_bounds ! k of (name, lo, hi) \<Rightarrow>
                  if u k < rate then randint lo hi (r k) = Inr (g' ! k) else g' ! k = g ! k)"
    if "in_bounds parameter_bounds g"
  proof -
    from mutate_individual_per_gene[OF in_bounds_length[OF that], of rate u r]
    obtain g' where g': "mutate_individual rate u r g = Inr g'"
      "\<forall>k<8. case parameter_bounds ! k of (name, lo, hi) \<Rightarrow>
          if u k < rate then randint lo hi (r k) = Inr (g' ! k) else g' ! k = g ! k"
      by blast
    from mutate_individual_in_bounds[OF that, of rate u r] g'(1)
    have "in_bounds parameter_bounds g'" by auto
    with g' show ?thesis by blast
  qed
  show "\<exists>c1 c2 a b. cxTwoPoint g1 g2 r1 r2 = Inr (c1, c2)
           \<and> in_bounds parameter_bounds c1 \<and> in_bounds parameter_bounds c2
           \<and> 1 \<le> a \<and> a < b \<and> b \<le> 8
           \<and> (\<forall>k<8. c1 ! k = (if a \<le> k \<and> k < b then g2 ! k else g1 ! k)
                  \<and> c2 ! k = (if a \<le> k \<and> k < b then g1 ! k else g2 ! k))"
    if p: "in_bounds parameter_bounds g1 \<and> in_bounds parameter_bounds g2"
  proof -
    from p have p1: "in_bounds parameter_bounds g1" and p2: "in_bounds parameter_bounds g2"
      by simp_all
    from cxTwoPoint_segment[OF in_bounds_length[OF p1] in_bounds_length[OF p2], of r1 r2]
    obtain c1 c2 a b where c: "cxTwoPoint g1 g2 r1 r2 = Inr (c1, c2)" "1 \<le> a" "a < b" "b \<le> 8"
      "\<forall>k<8. c1 ! k = (if a \<le> k \<and> k < b then g2 ! k else g1 ! k)
                  \<and> c2 ! k = (if a \<le> k \<and> k < b then g1 ! k else g2 ! k)"
      by blast
    from cxTwoPoint_in_bounds[OF len p1 p2, of r1 r2] c(1)
    have "in_bounds parameter_bounds c1" "in_bounds parameter_bounds c2" by auto
    with c show ?thesis by blast
  qed
  show "\<exists>child. optimize_offspring float_add cr mr d = Inr child
           \<and> in_bounds parameter_bounds child
           \<and> (op_choice d < cr \<longrightarrow>
                (\<exists>c2. cxTwoPoint (parent1 d) (parent2 d) (cx_r1 d) (cx_r2 d) = Inr (child, c2)))
           \<and> (cr \<le> op_choice d \<and> op_choice d < float_add cr mr \<longrightarrow>
                mutate_individual mr (mut_u d) (mut_r d) (parent1 d) = Inr child)
           \<and> (cr \<le> op_choice d \<and> float_add cr mr \<le> op_choice d \<longrightarrow> child = parent1 d)"
    if p: "float_add cr mr \<le> 1 \<and> in_bounds parameter_bounds (parent1 d)
        \<and> in_bounds parameter_bounds (parent2 d)"
  proof -
    from p have s: "float_add cr mr \<le> 1" and p1: "in_bounds parameter_bounds (parent1 d)"
      and p2: "in_bounds parameter_bounds (parent2 d)" by simp_all
    from cxTwoPoint_in_bounds[OF len p1 p2, of "cx_r1 d" "cx_r2 d"]
    obtain c1 c2 where c: "cxTwoPoint (parent1 d) (parent2 d) (cx_r1 d) (cx_r2 d) = Inr (c1, c2)"
      "in_bounds parameter_bounds c1" by blast
    from mutate_individual_in_bounds[OF p1, of mr "mut_u d" "mut_r d"]
    obtain m where m: "mutate_individual mr (mut_u d) (mut_r d) (parent1 d) = Inr m"
      "in_bounds parameter_bounds m" by blast
    consider "op_choice d < cr" | "cr \<le> op_choice d" "op_choice d < float_add cr mr"
      | "cr \<le> op_choice d" "float_add cr mr \<le> op_choice d" by linarith
    then show ?thesis
    proof cases
      case 1
      then have "optimize_offspring float_add cr mr d = Inr c1"
        using s c(1) by (simp add: optimize_offspring_def varOr_offspring_def)
      with 1 c show ?thesis by simp
    next
      case 2
      then have "optimize_offspring float_add cr mr d = Inr m"
        using s m(1) by (simp add: optimize_offspring_def varOr_offspring_def)
      with 2 m show ?thesis by simp
    next
      case 3
      then have "optimize_offspring float_add cr mr d = Inr (parent1 d)"
        using s by (simp add: optimize_offspring_def varOr_offspring_def)
      with 3 p1 show ?thesis by simp
    qed
  qed
  show "\<forall>(name, lo, hi) \<in> set parameter_bounds.
         (\<forall>raw. \<exists>v. randint lo hi raw = Inr v \<and> lo \<le> v \<and> v \<le> hi)
         \<and> (\<forall>v. lo \<le> v \<and> v \<le> hi \<longrightarrow> (\<exists>raw. randint lo hi raw = Inr v))"
  proof (clarify, intro conjI allI impI)
    fix name lo hi raw
    assume "(name, lo, hi) \<in> set parameter_bounds"
    with wf_parameter_bounds have "lo \<le> hi"
      by (auto simp: wf_bounds_def list_all_iff)
    then show "\<exists>v. randint lo hi raw = Inr v \<and> lo \<le> v \<and> v \<le> hi"
      by (rule randint_range)
  next
    fix lo hi v :: int
    assume "lo \<le> v \<and> v \<le> hi"
    then show "\<exists>raw. randint lo hi raw = Inr v"
      using randint_onto by blast
  qed
qed

lemma in_bounds_genome0: "in_bounds parameter_bounds genome0"
  by (simp add: in_bounds_def parameter_bounds_def genome0_def)

lemma in_bounds_genome1: "in_bounds parameter_bounds genome1"
  by (simp add: in_bounds_def parameter_bounds_def genome1_def)


theorem C7_witness:
  "(\<exists>g. toolbox_individual zero_draw = Inr g \<and> length g = 8 \<and> in_bounds parameter_bounds g
        \<and> (\<forall>k<8. case parameter_bounds ! k of (name, lo, hi) \<Rightarrow>
               randint lo hi (zero_draw k) = Inr (g ! k)))
   \<and> in_bounds parameter_bounds genome0 \<and> in_bounds parameter_bounds genome1
   \<and> (\<exists>draw'. toolbox_individual draw' = Inr genome1)
   \<and> (\<exists>g'. mutate_individual (1 / 4) low_u raw7 genome0 = Inr g'
          \<and> in_bounds parameter_bounds g'
          \<and> (\<forall>k<8. case parameter_bounds ! k of (name, lo, hi) \<Rightarrow>
                 if low_u k < 1 / 4 then randint lo hi (raw7 k) = Inr (g' ! k)
                 else g' ! k = genome0 ! k))
   \<and> (\<exists>c1 c2 a b. cxTwoPoint genome0 genome1 2 5 = Inr (c1, c2)
          \<and> in_bounds parameter_bounds c1 \<and> in_bounds parameter_bounds c2
          \<and> 1 \<le> a \<and> a < b \<and> b \<le> 8
          \<and> (\<forall>k<8. c1 ! k = (if a \<le> k \<and> k < b then genome1 ! k else genome0 ! k)
                 \<and> c2 ! k = (if a \<le> k \<and> k < b then genome0 ! k else genome1 ! k)))
   \<and> (1 / 2 + 1 / 4 :: real) \<le> 1
   \<and> op_choice crossover_draws < 1 / 2
   \<and> (\<exists>child c2. optimize_offspring (+) (1 / 2) (1 / 4) crossover_draws = Inr child
          \<and> in_bounds parameter_bounds child
          \<and> cxTwoPoint genome0 genome1 2 5 = Inr (child, c2))
   \<and> 1 / 2 \<le> op_choice mutation_draws \<and> op_choice mutation_draws < 1 / 2 + 1 / 4
   \<and> (\<exists>child. optimize_offspring (+) (1 / 2) (1 / 4) mutation_draws = Inr child
          \<and> in_bounds parameter_bounds child
          \<and> mutate_individual (1 / 4) low_u raw7 genome0 = Inr child)
   \<and> 1 / 2 + 1 / 4 \<le> op_choice reproduction_draws
   \<and> optimize_offspring (+) (1 / 2) (1 / 4) reproduction_draws = Inr genome0
   \<and> (''capacityOfMainConveyor'', 800, 1200) \<in> set parameter_bounds
   \<and> (\<exists>v. randint 800 1200 7 = Inr v \<and> 800 \<le> v \<and> v \<le> 1200)
   \<and> (800 :: int) \<le> 1000 \<and> (1000 :: int) \<le> 1200
   \<and> (\<exists>raw. randint 800 1200 raw = Inr 1000)"
proof -
  note c7 = C7_genes_within_bounds [where draw = zero_draw and g = genome1
      and rate = "1 / 4" and u = low_u and r = raw7
      and ?g1.0 = genome0 and ?g2.0 = genome1 and ?r1.0 = 2 and ?r2.0 = 5
      and float_add = "(+)" and cr = "1 / 2" and mr = "1 / 4"]
  note c7_sample = c7 [THEN conjunct1]
  note c7_onto = c7 [THEN conjunct2, THEN conjunct1]
  note c7_cx = c7 [THEN conjunct2, THEN conjunct2, THEN conjunct2, THEN conjunct1]
  note c7_var = C7_genes_within_bounds [where float_add = "(+)" and cr = "1 / 2"
      and mr = "1 / 4", THEN conjunct2, THEN conjunct2, THEN conjunct2, THEN conjunct2,
      THEN conjunct1]
  note c7_randint = c7 [THEN conjunct2, THEN conjunct2, THEN conjunct2, THEN conjunct2,
      THEN conjunct2]
  note c7_mut = C7_genes_within_bounds [where g = genome0 and rate = "1 / 4" and u = low_u
      and r = raw7, THEN conjunct2, THEN conjunct2, THEN conjunct1]
  have sum: "(1 / 2 + 1 / 4 :: real) \<le> 1"
    by simp
  have ops: "op_choice crossover_draws < 1 / 2"
    "1 / 2 \<le> op_choice mutation_draws" "op_choice mutation_draws < 1 / 2 + 1 / 4"
    "1 / 2 \<le> op_choice reproduction_draws" "1 / 2 + 1 / 4 \<le> op_choice reproduction_draws"
    by (simp_all add: crossover_draws_def mutation_draws_def reproduction_draws_def)
  have fields: "parent1 crossover_draws = genome0" "parent2 crossover_draws = genome1"
    "cx_r1 crossover_draws = 2" "cx_r2 crossover_draws = 5"
    "parent1 mutation_draws = genome0" "parent2 mutation_draws = genome1"
    "mut_u mutation_draws = low_u" "mut_r mutation_draws = raw7"
    "parent1 reproduction_draws = genome0" "parent2 reproduction_draws = genome1"
    by (simp_all add: crossover_draws_def mutation_draws_def reproduction_draws_def)
  have mem: "(''capacityOfMainConveyor'', 800, 1200) \<in> set parameter_bounds"
    by (simp add: parameter_bounds_def)
  have onto: "\<exists>draw'. toolbox_individual draw' = Inr genome1"
    using c7_onto in_bounds_genome1 by (rule mp)
  have mut: "\<exists>g'. mutate_individual (1 / 4) low_u raw7 genome0 = Inr g'
          \<and> in_bounds parameter_bounds g'
          \<and> (\<forall>k<8. case parameter_bounds ! k of (name, lo, hi) \<Rightarrow>
                 if low_u k < 1 / 4 then randint lo hi (raw7 k) = Inr (g' ! k)
                 else g' ! k = genome0 ! k)"
    using c7_mut in_bounds_genome0 by (rule mp)
  have cx: "\<exists>c1 c2 a b. cxTwoPoint genome0 genome1 2 5 = Inr (c1, c2)
          \<and> in_bounds parameter_bounds c1 \<and> in_bounds parameter_bounds c2
          \<and> 1 \<le> a \<and> a < b \<and> b \<le> 8
          \<and> (\<forall>k<8. c1 ! k = (if a \<le> k \<and> k < b then genome1 ! k else genome0 ! k)
                 \<and> c2 ! k = (if a \<le> k \<and> k < b then genome0 ! k else genome1 ! k))"
    using c7_cx conjI [OF in_bounds_genome0 in_bounds_genome1] by (rule mp)
  have pre: "(1 / 2 + 1 / 4 :: real) \<le> 1 \<and> in_bounds parameter_bounds genome0
      \<and> in_bounds parameter_bounds genome1"
    using sum in_bounds_genome0 in_bounds_genome1 by (intro conjI)
  have off_cx: "\<exists>child c2. optimize_offspring (+) (1 / 2) (1 / 4) crossover_draws = Inr child
          \<and> in_bounds parameter_bounds child
          \<and> cxTwoPoint genome0 genome1 2 5 = Inr (child, c2)"
  proof -
    from c7_var [of crossover_draws, unfolded fields, THEN mp, OF pre]
    obtain child where c: "optimize_offspring (+) (1 / 2) (1 / 4) crossover_draws = Inr child"
      "in_bounds parameter_bounds child"
      "op_choice crossover_draws < 1 / 2 \<longrightarrow>
         (\<exists>c2. cxTwoPoint genome0 genome1 2 5 = Inr (child, c2))"
      by blast
    from c(3) ops(1) obtain c2 where "cxTwoPoint genome0 genome1 2 5 = Inr (child, c2)"
      by blast
    with c(1,2) show ?thesis by blast
  qed
  have off_mut: "\<exists>child. optimize_offspring (+) (1 / 2) (1 / 4) mutation_draws = Inr child
          \<and> in_bounds parameter_bounds child
          \<and> mutate_individual (1 / 4) low_u raw7 genome0 = Inr child"
  proof -
    from c7_var [of mutation_draws, unfolded fields, THEN mp, OF pre]
    obtain child where c: "optimize_offspring (+) (1 / 2) (1 / 4) mutation_draws = Inr child"
      "in_bounds parameter_bounds child"
      "1 / 2 \<le> op_choice mutation_draws \<and> op_choice mutation_draws < 1 / 2 + 1 / 4 \<longrightarrow>
         mutate_individual (1 / 4) low_u raw7 genome0 = Inr child"
      by blast
    from c(3) ops(2,3) have "mutate_individual (1 / 4) low_u raw7 genome0 = Inr child"
      by blast
    with c(1,2) show ?thesis by blast
  qed
  have off_rep: "optimize_offspring (+) (1 / 2) (1 / 4) reproduction_draws = Inr genome0"
  proof -
    from c7_var [of reproduction_draws, unfolded fields, THEN mp, OF pre]
    obtain child where c: "optimize_offspring (+) (1 / 2) (1 / 4) reproduction_draws = Inr child"
      "1 / 2 \<le> op_choice reproduction_draws \<and> 1 / 2 + 1 / 4 \<le> op_choice reproduction_draws \<longrightarrow>
         child = genome0"
      by blast
    from c(2) ops(4,5) have "child = genome0" by blast
    with c(1) show ?thesis by simp
  qed
  have range: "\<exists>v. randint 800 1200 7 = Inr v \<and> 800 \<le> v \<and> v \<le> 1200"
    using c7_randint [THEN bspec, OF mem] by fast
  have draw: "\<exists>raw. randint 800 1200 raw = Inr 1000"
    using c7_randint [THEN bspec, OF mem] by simp
  show ?thesis
    by (intro conjI c7_sample in_bounds_genome0 in_bounds_genome1 onto mut cx sum ops off_cx
        off_mut off_rep mem range draw) simp_all
qed

section \<open>Where mutation acts\<close>




section \<open>Failed evaluations\<close>

lemma neginf_less: "(NegInf < x) = (x \<noteq> NegInf)"
  by (cases x) (simp_all add: less_pyfloat_def)

lemma less_posinf: "(x < PosInf) = (x \<noteq> PosInf)"
  by (cases x) (simp_all add: less_pyfloat_def)

lemma not_less_neginf: "\<not> x < NegInf"
  by (cases x) (simp_all add: less_pyfloat_def)

lemma not_posinf_less: "\<not> PosInf < x"
  by (cases x) (simp_all add: less_pyfloat_def)

lemma le_posinf: "x \<le> PosInf"
  by (cases x) simp_all

lemma length5: "length f = 5 \<Longrightarrow> \<exists>a b c d e. f = [a, b, c, d, e]"
  by (auto simp: eval_nat_numeral length_Suc_conv)

lemma dominates_sentinel:
  assumes "length f = 5" "f \<noteq> sentinel"
  shows "fitness_dominates f sentinel"
proof -
  from length5[OF assms(1)] obtain a b c d e where f: "f = [a, b, c, d, e]" by blast
  with assms(2) show ?thesis
    by (auto simp: fitness_dominates_def dominates_def objectives_def sentinel_def
        neginf_less less_posinf le_posinf)
qed

lemma sentinel_dominates_nothing: "\<not> fitness_dominates sentinel f"
proof (cases f)
  case Nil
  then show ?thesis by (simp add: fitness_dominates_def dominates_def)
next
  case (Cons a f1)
  then show ?thesis
    by (cases f1; cases "tl f1"; cases "tl (tl f1)"; cases "tl (tl (tl f1))")
       (auto simp: fitness_dominates_def dominates_def objectives_def sentinel_def
        not_less_neginf not_posinf_less)
qed

lemma archive_add_subset: "set (archive_add ind archive) \<subseteq> insert ind (set archive)"
  by (auto simp: archive_add_def Let_def)

lemma five_valued_add:
  "five_valued archive \<Longrightarrow> length (snd ind) = 5 \<Longrightarrow> five_valued (archive_add ind archive)"
  using archive_add_subset[of ind archive] by (auto simp: five_valued_def)

lemma clean_add:
  assumes "archive_clean archive" "five_valued archive" "length (snd ind) = 5"
  shows "archive_clean (archive_add ind archive)"
proof (cases "list_ex (\<lambda>h. fitness_dominates (snd h) (snd ind)) archive")
  case True
  then show ?thesis using assms(1) by (simp add: archive_add_def)
next
  case False
  have ns: "snd ind \<noteq> sentinel"
  proof
    assume s: "snd ind = sentinel"
    from assms(1) obtain h where h: "h \<in> set archive" "snd h \<noteq> sentinel"
      by (cases archive) (auto simp: archive_clean_def)
    with assms(2) have "fitness_dominates (snd h) sentinel"
      by (auto simp: five_valued_def intro: dominates_sentinel)
    with h(1) s False show False by (auto simp: list_ex_iff)
  qed
  let ?kept = "filter (\<lambda>h. \<not> fitness_dominates (snd ind) (snd h)) archive"
  show ?thesis
  proof (cases "list_ex (\<lambda>h. fst h = fst ind) ?kept")
    case True
    have "?kept \<noteq> []"
    proof
      assume "?kept = []"
      with True show False by simp
    qed
    moreover have "\<forall>h \<in> set ?kept. snd h \<noteq> sentinel"
      using assms(1) by (auto simp: archive_clean_def)
    ultimately show ?thesis
      using False True by (simp add: archive_add_def Let_def archive_clean_def)
  next
    case nt: False
    have "\<forall>h \<in> set (?kept @ [ind]). snd h \<noteq> sentinel"
      using assms(1) ns by (auto simp: archive_clean_def)
    then show ?thesis
      using False nt by (auto simp: archive_add_def Let_def archive_clean_def)
  qed
qed

lemma failed_add_valid:
  assumes "archive_all_failed archive" "length (snd ind) = 5" "snd ind \<noteq> sentinel"
  shows "archive_clean (archive_add ind archive)"
proof -
  have nd: "\<not> list_ex (\<lambda>h. fitness_dominates (snd h) (snd ind)) archive"
    using assms(1) sentinel_dominates_nothing by (auto simp: list_ex_iff archive_all_failed_def)
  have "filter (\<lambda>h. \<not> fitness_dominates (snd ind) (snd h)) archive = []"
    using assms dominates_sentinel[OF assms(2,3)]
    by (auto simp: filter_empty_conv archive_all_failed_def)
  with nd show ?thesis
    using assms(3) by (simp add: archive_add_def Let_def archive_clean_def)
qed

lemma failed_add_failed:
  assumes "archive_all_failed archive" "snd ind = sentinel"
  shows "archive_all_failed (archive_add ind archive)"
  using archive_add_subset[of ind archive] assms by (auto simp: archive_all_failed_def)

text \<open>
  While every individual offered has failed, the archive is not empty and holds failed
  individuals only: a run in which every evaluation fails ends with an archive of failed
  individuals.
\<close>

lemma failed_add_nonempty:
  assumes "archive_all_failed archive" "snd ind = sentinel"
  shows "archive_add ind archive \<noteq> []"
proof -
  have keep: "filter (\<lambda>h. \<not> fitness_dominates (snd ind) (snd h)) archive = archive"
    using assms(2) sentinel_dominates_nothing by simp
  have nd: "\<not> list_ex (\<lambda>h. fitness_dominates (snd h) (snd ind)) archive"
    using assms(1) sentinel_dominates_nothing
    by (auto simp: list_ex_iff archive_all_failed_def)
  show ?thesis
    using nd keep by (auto simp: archive_add_def Let_def list_ex_iff)
qed

lemma all_failed_update:
  "archive_all_failed archive \<Longrightarrow> \<forall>ind \<in> set population. snd ind = sentinel \<Longrightarrow>
   archive \<noteq> [] \<or> population \<noteq> [] \<Longrightarrow>
     archive_update archive population \<noteq> []
     \<and> archive_all_failed (archive_update archive population)"
proof (induction population arbitrary: archive)
  case Nil
  then show ?case by simp
next
  case (Cons ind population)
  from Cons.prems(2) have s: "snd ind = sentinel"
    and rest: "\<forall>i \<in> set population. snd i = sentinel" by simp_all
  have "archive_all_failed (archive_add ind archive)"
    by (rule failed_add_failed[OF Cons.prems(1) s])
  moreover have "archive_add ind archive \<noteq> []"
    by (rule failed_add_nonempty[OF Cons.prems(1) s])
  ultimately show ?case
    using Cons.IH[of "archive_add ind archive"] rest by simp
qed

lemma clean_update:
  "archive_clean archive \<Longrightarrow> five_valued archive \<Longrightarrow> five_valued population \<Longrightarrow>
     archive_clean (archive_update archive population)"
proof (induction population arbitrary: archive)
  case Nil
  then show ?case by simp
next
  case (Cons ind population)
  from Cons.prems(3) have l: "length (snd ind) = 5" and fp: "five_valued population"
    by (simp_all add: five_valued_def)
  show ?case
    using Cons.IH[OF clean_add[OF Cons.prems(1,2) l] five_valued_add[OF Cons.prems(2) l] fp]
    by simp
qed

lemma valid_update:
  "archive_clean archive \<or> archive_all_failed archive \<Longrightarrow> five_valued archive \<Longrightarrow>
   five_valued population \<Longrightarrow> \<exists>ind \<in> set population. snd ind \<noteq> sentinel \<Longrightarrow>
     archive_clean (archive_update archive population)"
proof (induction population arbitrary: archive)
  case Nil
  then show ?case by simp
next
  case (Cons ind population)
  from Cons.prems(3) have l: "length (snd ind) = 5" and fp: "five_valued population"
    by (simp_all add: five_valued_def)
  note fa = five_valued_add[OF Cons.prems(2) l]
  show ?case
  proof (cases "snd ind = sentinel")
    case True
    with Cons.prems(4) have ex: "\<exists>i \<in> set population. snd i \<noteq> sentinel" by auto
    have "archive_clean (archive_add ind archive) \<or> archive_all_failed (archive_add ind archive)"
      using Cons.prems(1) clean_add[OF _ Cons.prems(2) l] failed_add_failed[OF _ True] by blast
    from Cons.IH[OF this fa fp ex] show ?thesis by simp
  next
    case False
    have "archive_clean (archive_add ind archive)"
      using Cons.prems(1) clean_add[OF _ Cons.prems(2) l] failed_add_valid[OF _ l False] by blast
    from clean_update[OF this fa fp] show ?thesis by simp
  qed
qed

text \<open>
  C5, as stated, fails in its archive part. A failed individual is not dominated by an
  empty archive nor by other failed individuals, so it enters the archive: when the only
  individual, or every individual, offered to the archive has failed, the archive holds
  failed individuals.
\<close>

theorem C5_counterexample:
  "evaluate_individual toy_hash ''t0'' failing_oracle init_registry genome0 =
     (Inr sentinel, init_registry)
   \<and> archive_update [] [(genome0, sentinel)] = [(genome0, sentinel)]
   \<and> archive_update [] [(genome0, sentinel), (genome1, sentinel)] =
       [(genome0, sentinel), (genome1, sentinel)]"
  by (simp add: evaluate_individual_def evaluate_try_def individual_to_parameters_def
      failing_oracle_def genome0_def genome1_def archive_add_def sentinel_dominates_nothing)

text \<open>
  C5, amended. When the oracle call returns \<^verbatim>\<open>None\<close> or raises, the evaluation of an
  individual with its eight genes returns the sentinel \<open>(-inf, +inf, +inf, -inf, +inf)\<close>
  without raising and leaves the registry untouched. The sentinel is dominated by every
  fitness of five values that differs from it and dominates nothing. Hence an archive that
  has been offered at least one individual whose fitness is not the sentinel holds no
  failed individual; failed individuals stay in the archive only as long as nothing else has
  been offered.
\<close>

theorem C5_failed_evaluation_gets_sentinel:
  "(8 \<le> length individual \<longrightarrow>
      (\<exists>ps. individual_to_parameters individual = Inr ps \<and>
         (simulate ps = Inr None \<or> (\<exists>e. simulate ps = Inl e) \<longrightarrow>
            evaluate_individual hsh now simulate st individual = (Inr sentinel, st))))
   \<and> (length f = 5 \<longrightarrow> f \<noteq> sentinel \<longrightarrow> fitness_dominates f sentinel)
   \<and> \<not> fitness_dominates sentinel f
   \<and> (five_valued population \<longrightarrow> (\<exists>ind \<in> set population. snd ind \<noteq> sentinel) \<longrightarrow>
        (\<forall>h \<in> set (archive_update [] population). snd h \<noteq> sentinel))"
proof (intro conjI impI)
  assume len: "8 \<le> length individual"
  obtain ps where ps: "individual_to_parameters individual = Inr ps"
    using len by (simp add: individual_to_parameters_def)
  have "evaluate_individual hsh now simulate st individual = (Inr sentinel, st)"
    if "simulate ps = Inr None \<or> (\<exists>e. simulate ps = Inl e)"
    using that by (auto simp: evaluate_individual_def ps evaluate_try_def)
  with ps show "\<exists>ps. individual_to_parameters individual = Inr ps \<and>
         (simulate ps = Inr None \<or> (\<exists>e. simulate ps = Inl e) \<longrightarrow>
            evaluate_individual hsh now simulate st individual = (Inr sentinel, st))"
    by blast
next
  show "fitness_dominates f sentinel" if "length f = 5" "f \<noteq> sentinel"
    using that by (rule dominates_sentinel)
next
  show "\<not> fitness_dominates sentinel f"
    by (rule sentinel_dominates_nothing)
next
  assume "five_valued population" "\<exists>ind \<in> set population. snd ind \<noteq> sentinel"
  then have "archive_clean (archive_update [] population)"
    using valid_update[of "[]" population]
    by (simp add: archive_all_failed_def five_valued_def)
  then show "\<forall>h \<in> set (archive_update [] population). snd h \<noteq> sentinel"
    by (simp add: archive_clean_def)
qed

theorem C5_witness:
  "8 \<le> length genome0
   \<and> evaluate_individual toy_hash ''t0'' failing_oracle init_registry genome0 =
       (Inr sentinel, init_registry)
   \<and> length one_valid = 5 \<and> one_valid \<noteq> sentinel
   \<and> fitness_dominates one_valid sentinel
   \<and> five_valued mixed_population
   \<and> (genome1, one_valid) \<in> set mixed_population
   \<and> (genome0, sentinel) \<notin> set (archive_update [] mixed_population)"
proof -
  note c5 = C5_failed_evaluation_gets_sentinel [where individual = genome0
      and simulate = failing_oracle and hsh = toy_hash and now = "''t0''" and st = init_registry
      and f = one_valid and population = mixed_population]
  have len: "8 \<le> length genome0"
    by (simp add: genome0_def)
  have fails: "failing_oracle ps = Inr None \<or> (\<exists>e. failing_oracle ps = Inl e)" for ps
    by (simp add: failing_oracle_def)
  have ev: "evaluate_individual toy_hash ''t0'' failing_oracle init_registry genome0 =
       (Inr sentinel, init_registry)"
    using c5 [THEN conjunct1] len fails by blast
  have f5: "length one_valid = 5" and fne: "one_valid \<noteq> sentinel"
    by (simp_all add: one_valid_def sentinel_def)
  have dom: "fitness_dominates one_valid sentinel"
    using c5 [THEN conjunct2, THEN conjunct1] f5 fne by blast
  have five: "five_valued mixed_population"
    by (simp add: five_valued_def mixed_population_def one_valid_def sentinel_def)
  have mem: "(genome1, one_valid) \<in> set mixed_population"
    by (simp add: mixed_population_def)
  have "\<exists>ind \<in> set mixed_population. snd ind \<noteq> sentinel"
    using mem fne by force
  with c5 [THEN conjunct2, THEN conjunct2, THEN conjunct2] five
  have "\<forall>h \<in> set (archive_update [] mixed_population). snd h \<noteq> sentinel"
    by blast
  then have out: "(genome0, sentinel) \<notin> set (archive_update [] mixed_population)"
    by force
  from len ev f5 fne dom five mem out show ?thesis
    by blast
qed

section \<open>The persisted record survives the round trip\<close>

lemma int_items_round_trip:
  "int_items (map ((\<lambda>(k, v). (k, json_load v)) \<circ>
      ((\<lambda>(k, v). (k, json_dump v)) \<circ> (\<lambda>(k, v). (k, PyInt v)))) ps) = Some ps"
  by (induction ps) auto

lemma int_items_saved: "int_items (map (\<lambda>(k, v). (k, PyInt v)) ps) = Some ps"
  by (induction ps) auto

lemma float_items_round_trip:
  "float_items (map (json_load \<circ> (json_dump \<circ> PyFloat)) vs) = Some vs"
  by (induction vs) auto

lemma float_items_saved: "float_items (map PyFloat vs) = Some vs"
  by (induction vs) auto

lemma save_entry_triple:
  assumes "save_entry hsh st ind = Inr e"
  shows "entry_triple e = individual_triple hsh st ind"
    and "entry_triple (json_load (json_dump e)) = individual_triple hsh st ind"
  using assms
  by (auto simp: save_entry_def individual_triple_def Let_def int_items_saved
      int_items_round_trip float_items_saved float_items_round_trip
      split: sum.splits option.splits)

lemma save_entries_triples:
  "save_entries hsh st inds = Inr es \<Longrightarrow>
     map entry_triple es = map (individual_triple hsh st) inds \<and>
     map entry_triple (map json_load (map json_dump es)) = map (individual_triple hsh st) inds"
proof (induction inds arbitrary: es)
  case Nil
  then show ?case by auto
next
  case (Cons ind inds)
  from Cons.prems obtain e es' where e: "save_entry hsh st ind = Inr e"
    and es': "save_entries hsh st inds = Inr es'" and es: "es = e # es'"
    by (auto split: sum.splits)
  from Cons.IH[OF es'] save_entry_triple[OF e] show ?case
    by (simp add: es)
qed

lemma save_entries_total:
  "\<forall>ind \<in> set inds. 8 \<le> length (fst ind) \<Longrightarrow> \<exists>es. save_entries hsh st inds = Inr es"
  by (induction inds) (auto simp: save_entry_def individual_to_parameters_def Let_def)

text \<open>
  C8. \<^verbatim>\<open>save_results\<close> succeeds on individuals with their eight genes, and reloading the
  file gives, for the population and for the front, entry by entry the triple that was
  written, which is the triple of the individual: the identifier, the eight parameter
  name/value pairs and the fitness values (or \<^verbatim>\<open>None\<close>). The fitness is written as a
  tuple and read back as a list of the same values.
\<close>

theorem C8_round_trip:
  "((\<forall>ind \<in> set (population @ pareto_front). 8 \<le> length (fst ind)) \<longrightarrow>
      (\<exists>file. save_results hsh hp st population pareto_front = Inr file))
   \<and> (save_results hsh hp st population pareto_front = Inr file \<longrightarrow>
      (\<exists>pop_entries front_entries.
         save_entries hsh st population = Inr pop_entries
         \<and> save_entries hsh st pareto_front = Inr front_entries
         \<and> map entry_triple (entries_of (load_results file) ''population'') =
             map entry_triple pop_entries
         \<and> map entry_triple pop_entries = map (individual_triple hsh st) population
         \<and> map entry_triple (entries_of (load_results file) ''pareto_front'') =
             map entry_triple front_entries
         \<and> map entry_triple front_entries = map (individual_triple hsh st) pareto_front))"
proof (intro conjI impI)
  assume "\<forall>ind \<in> set (population @ pareto_front). 8 \<le> length (fst ind)"
  then have "\<exists>es. save_entries hsh st population = Inr es"
    "\<exists>es. save_entries hsh st pareto_front = Inr es"
    by (auto intro: save_entries_total)
  then show "\<exists>file. save_results hsh hp st population pareto_front = Inr file"
    by (auto simp: save_results_def)
next
  assume saved: "save_results hsh hp st population pareto_front = Inr file"
  then obtain pe fe where pe: "save_entries hsh st population = Inr pe"
    and fe: "save_entries hsh st pareto_front = Inr fe"
    by (auto simp: save_results_def split: sum.splits)
  have pop: "entries_of (load_results file) ''population'' = map json_load (map json_dump pe)"
    and front: "entries_of (load_results file) ''pareto_front'' = map json_load (map json_dump fe)"
    using saved by (auto simp: save_results_def load_results_def pe fe)
  from save_entries_triples[OF pe] save_entries_triples[OF fe] pe fe
  show "\<exists>pop_entries front_entries.
         save_entries hsh st population = Inr pop_entries
         \<and> save_entries hsh st pareto_front = Inr front_entries
         \<and> map entry_triple (entries_of (load_results file) ''population'') =
             map entry_triple pop_entries
         \<and> map entry_triple pop_entries = map (individual_triple hsh st) population
         \<and> map entry_triple (entries_of (load_results file) ''pareto_front'') =
             map entry_triple front_entries
         \<and> map entry_triple front_entries = map (individual_triple hsh st) pareto_front"
    by (simp add: pop front)
qed

lemma params_genome0: "individual_to_parameters genome0 = Inr params0"
  by (simp add: individual_to_parameters_def genome0_def params0_def)

lemma get_or_create_first:
  "get_or_create_solution_id hsh now init_registry ps kpis =
     (Inr ''SOL_000001'',
      \<lparr>solution_counter = 1, solution_ids = [(hsh (sort ps), ''SOL_000001'')],
       solution_history = [\<lparr>rec_id = ''SOL_000001'', rec_parameters = ps, rec_kpis = kpis,
          rec_timestamp = now, rec_generation = None\<rparr>]\<rparr>)"
  by (simp add: get_or_create_solution_id_def init_registry_def Let_def format1)

lemma ids_registry1: "solution_ids registry1 = [(toy_hash (sort params0), ''SOL_000001'')]"
  by (simp add: registry1_def evaluate_individual_snd params_genome0 kpi_answer_def
      get_or_create_first)

lemma lookup1: "dict_get [(k, v)] k d = v"
  by (simp add: dict_get_def)

lemma triple_genome0:
  "individual_triple toy_hash registry1 (genome0, fit) = Some (''SOL_000001'', params0, fit)"
  by (simp add: individual_triple_def params_genome0 ids_registry1 lookup1)

theorem C8_witness:
  "8 \<le> length genome0
   \<and> (\<exists>file. save_results toy_hash hyperparameters0 registry1 population0 front0 = Inr file
         \<and> map entry_triple (entries_of (load_results file) ''population'') =
             [Some (''SOL_000001'', params0, Some fitness0), Some (''SOL_000001'', params0, None)]
         \<and> map entry_triple (entries_of (load_results file) ''pareto_front'') =
             [Some (''SOL_000001'', params0, Some fitness0)])"
proof -
  have len: "8 \<le> length genome0"
    by (simp add: genome0_def)
  then have all: "\<forall>ind \<in> set (population0 @ front0). 8 \<le> length (fst ind)"
    by (simp add: population0_def front0_def)
  from C8_round_trip [where hsh = toy_hash and hp = hyperparameters0 and st = registry1
      and population = population0 and pareto_front = front0, THEN conjunct1] all
  obtain out where
    saved: "save_results toy_hash hyperparameters0 registry1 population0 front0 = Inr out"
    by blast
  from C8_round_trip [where hsh = toy_hash and hp = hyperparameters0 and st = registry1
      and population = population0 and pareto_front = front0 and ?file = out,
      THEN conjunct2, rule_format, OF saved]
  obtain pe fe where
    p1: "map entry_triple (entries_of (load_results out) ''population'') = map entry_triple pe"
    and p2: "map entry_triple pe = map (individual_triple toy_hash registry1) population0"
    and f1: "map entry_triple (entries_of (load_results out) ''pareto_front'') =
      map entry_triple fe"
    and f2: "map entry_triple fe = map (individual_triple toy_hash registry1) front0"
    by blast
  have tp: "map (individual_triple toy_hash registry1) population0 =
      [Some (''SOL_000001'', params0, Some fitness0), Some (''SOL_000001'', params0, None)]"
    unfolding population0_def list.map triple_genome0 by (rule refl)
  have tf: "map (individual_triple toy_hash registry1) front0 =
      [Some (''SOL_000001'', params0, Some fitness0)]"
    unfolding front0_def list.map triple_genome0 by (rule refl)
  note a = trans [OF p1 p2, unfolded tp]
  note b = trans [OF f1 f2, unfolded tf]
  have "\<exists>file. save_results toy_hash hyperparameters0 registry1 population0 front0 = Inr file
         \<and> map entry_triple (entries_of (load_results file) ''population'') =
             [Some (''SOL_000001'', params0, Some fitness0), Some (''SOL_000001'', params0, None)]
         \<and> map entry_triple (entries_of (load_results file) ''pareto_front'') =
             [Some (''SOL_000001'', params0, Some fitness0)]"
    by (rule exI [where x = out], intro conjI, rule saved, rule a, rule b)
  with len show ?thesis
    by (rule conjI)
qed

section \<open>Identifiers when the hash does not collide\<close>

text \<open>
  A known key returns its identifier and changes nothing; a new key takes the next number.
  Repeating a call returns the same identifier and leaves the registry as it is, whatever
  the hash. Calls whose keys are pairwise distinct and new receive the consecutive
  identifiers that follow the counter, and counter and history grow by their number.
\<close>

lemma get_or_create_known:
  "map_of (solution_ids st) (hsh (sort ps)) = Some i \<Longrightarrow>
     get_or_create_solution_id hsh now st ps kpis = (Inr i, st)"
  by (simp add: get_or_create_solution_id_def)

lemma get_or_create_new:
  "map_of (solution_ids st) (hsh (sort ps)) = None \<Longrightarrow>
     get_or_create_solution_id hsh now st ps kpis =
       (Inr (''SOL_'' @ format_06d (solution_counter st + 1)),
        st\<lparr>solution_counter := solution_counter st + 1,
           solution_ids := AList.update (hsh (sort ps))
             (''SOL_'' @ format_06d (solution_counter st + 1)) (solution_ids st),
           solution_history := solution_history st @
             [\<lparr>rec_id = ''SOL_'' @ format_06d (solution_counter st + 1), rec_parameters = ps,
               rec_kpis = kpis, rec_timestamp = now, rec_generation = None\<rparr>]\<rparr>)"
  by (simp add: get_or_create_solution_id_def Let_def update_conv')

lemma get_or_create_repeat:
  assumes "get_or_create_solution_id hsh now st ps kpis = (Inr i, st')"
  shows "get_or_create_solution_id hsh now' st' ps kpis' = (Inr i, st')"
proof (cases "map_of (solution_ids st) (hsh (sort ps))")
  case None
  from assms[unfolded get_or_create_new[where hsh = hsh and st = st and ps = ps, OF None]]
  have "map_of (solution_ids st') (hsh (sort ps)) = Some i"
    by (auto simp: update_conv')
  then show ?thesis by (rule get_or_create_known[where hsh = hsh and ps = ps])
next
  case (Some j)
  from assms[unfolded get_or_create_known[where hsh = hsh and st = st and ps = ps, OF Some]] have "i = j" "st' = st" by simp_all
  with Some show ?thesis by (simp add: get_or_create_known)
qed


section \<open>What the extractor computes\<close>

text \<open>
  On a frame with all objective columns the extractor never raises, and it keeps exactly
  the rows for which no other row is at least as good on every objective. A strict
  improvement is not asked for, so rows that tie on all objectives remove each other.
\<close>

lemma dominates_loop_flag:
  "has_columns objs rj \<Longrightarrow> has_columns objs ri \<Longrightarrow>
     dominates_loop rj ri objs = Inr (\<forall>obj \<in> set objs. not_worse obj rj ri)"
proof (induction objs)
  case Nil
  then show ?case by simp
next
  case (Cons obj objs)
  from Cons.prems obtain vj vi where v: "map_of rj obj = Some vj" "map_of ri obj = Some vi"
    by (auto simp: has_columns_def)
  from Cons.prems have "has_columns objs rj" "has_columns objs ri"
    by (simp_all add: has_columns_def)
  from Cons.IH[OF this] show ?case
    using v by (auto simp: not_worse_def)
qed

lemma mask_loop_flag:
  "\<forall>r \<in> set df. has_columns objs r \<Longrightarrow> i < length df \<Longrightarrow> \<forall>j \<in> set js. j < length df \<Longrightarrow>
     mask_loop df objs i js =
       Inr (\<not> (\<exists>j \<in> set js. j \<noteq> i \<and> (\<forall>obj \<in> set objs. not_worse obj (df ! j) (df ! i))))"
proof (induction js)
  case Nil
  then show ?case by simp
next
  case (Cons j js)
  have cols: "has_columns objs (df ! j)" "has_columns objs (df ! i)"
    using Cons.prems by simp_all
  from Cons.prems have "\<forall>j \<in> set js. j < length df" by simp
  from Cons.IH[OF Cons.prems(1,2) this] show ?case
    by (auto simp: dominates_loop_flag[OF cols])
qed

lemma pareto_mask_flags:
  "\<forall>r \<in> set df. has_columns objs r \<Longrightarrow> \<forall>i \<in> set rows. i < length df \<Longrightarrow>
     pareto_mask df objs rows =
       Inr (map (\<lambda>i. \<not> (\<exists>j < length df. j \<noteq> i \<and>
                  (\<forall>obj \<in> set objs. not_worse obj (df ! j) (df ! i)))) rows)"
proof (induction rows)
  case Nil
  then show ?case by simp
next
  case (Cons i rows)
  have "mask_loop df objs i [0..<length df] =
       Inr (\<not> (\<exists>j \<in> set [0..<length df]. j \<noteq> i \<and>
              (\<forall>obj \<in> set objs. not_worse obj (df ! j) (df ! i))))"
    using Cons.prems by (intro mask_loop_flag) simp_all
  moreover from Cons.prems have "\<forall>i \<in> set rows. i < length df" by simp
  note Cons.IH[OF Cons.prems(1) this]
  ultimately show ?case by (simp add: Bex_def)
qed

lemma identify_pareto_frontier_keeps:
  assumes "\<forall>r \<in> set df. has_columns objs r"
  shows "identify_pareto_frontier df (Some objs) =
     Inr (map fst (filter snd (zip (zip [0..<length df] df)
       (map (\<lambda>i. \<not> (\<exists>j < length df. j \<noteq> i \<and>
                  (\<forall>obj \<in> set objs. not_worse obj (df ! j) (df ! i)))) [0..<length df]))))"
  using pareto_mask_flags[OF assms, of "[0..<length df]"]
  by (simp add: identify_pareto_frontier_def)

section \<open>Identifiers of the registry\<close>






















lemma sort_rev_params0: "sort (rev params0) =
   [(''capacityOfMainConveyor'', 800), (''capacityOfVehicleSilages'', 800),
    (''numberOfVehicleSilages'', 2), (''quantityOfSilages'', 18),
    (''quantityOfVagonsToSilageAtOnce'', 8), (''quantityOfVehicleDischargeStations'', 2),
    (''varOfWork'', 3), (''yearsModelWorking'', 1)]"
  unfolding params0_def by code_simp




lemma format42: "format_06d 42 = ''000042''"
  by code_simp



end
